theory Spec2Isabelle
  imports Complex_Main "HOL-Library.Log_Nat"
begin

section \<open>The vitamin D synthesis calculator (sunexposure.py)\<close>

text \<open>
  The program is one straight-line script: it reads three sidebar inputs and the wall
  clock, evaluates a formula pipeline and prints the results. The embedding follows the
  script top to bottom and keeps its variable names.

  Python floats are read in two ways. The first part reads them as real numbers, with
  positive infinity (\<open>float('inf')\<close>) as a constructor of its own. It serves the
  properties that rounding does not decide: the shape of the product, the thresholds of
  the branches, the figures at one fixed input, and the printed text. The second part
  evaluates lines 51 to 69 in IEEE 754 binary64, as the interpreter does: every
  operation rounds to the nearest double, a tie to the even neighbour, and a result
  beyond the largest double becomes an infinity. It serves the properties that are
  stated for every input of a range, where rounding and overflow decide.

  A float division whose divisor is zero raises \<open>ZeroDivisionError\<close> in Python, and a
  dictionary lookup of an absent key raises \<open>KeyError\<close>; both are results of the model.
\<close>

datatype py_error = ZeroDivisionError | KeyError

datatype pyfloat = Fin real | PosInf

subsection \<open>Sidebar inputs and the clock (lines 11-23, 37-40)\<close>

record inputs =
  uv_index :: real
  adaptation_factor :: real
  selected_clothing :: string
  current_hour :: int
  current_month :: int

definition clothing_options :: "(string \<times> real) list" where
  "clothing_options =
     [(''Nude (100%)'', 1.0),
      (''Minimal/Swimwear (80%)'', 0.8),
      (''Light/Shorts & T-shirt (40%)'', 0.4),
      (''Moderate/Long sleeves (15%)'', 0.15),
      (''Heavy/Fully covered (5%)'', 0.05)]"

definition clothing_factor :: "string \<Rightarrow> py_error + real" where
  \<comment> \<open>\<open>clothing_options[selected_clothing]\<close>\<close>
  "clothing_factor sel =
     (case map_of clothing_options sel of None \<Rightarrow> Inl KeyError | Some c \<Rightarrow> Inr c)"

subsection \<open>Fixed parameters (lines 26-34)\<close>

definition base_rate :: real where "base_rate = 21000"
definition skin_type_factor :: real where "skin_type_factor = 1.0"
definition age_factor :: real where "age_factor = 0.95"
definition height_inches :: real where "height_inches = 74"
definition weight_lbs :: real where "weight_lbs = 180"
definition height_m :: real where "height_m = height_inches * 0.0254"
definition weight_kg :: real where "weight_kg = weight_lbs * 0.453592"

definition bmi_of :: "real \<Rightarrow> real \<Rightarrow> real" where
  \<comment> \<open>\<open>weight_kg / (height_m ** 2) if height_m > 0 else 0\<close>; the guard keeps the
      divisor away from zero.\<close>
  "bmi_of w h = (if h > 0 then w / h ^ 2 else 0)"

definition bmi :: real where "bmi = bmi_of weight_kg height_m"

definition med_uv1 :: real where "med_uv1 = 425"

subsection \<open>Quality factor (lines 43-48)\<close>

definition quality_factor :: "int \<Rightarrow> real" where
  \<comment> \<open>The branch also sets \<open>quality_note\<close>, a display text that no later line reads.\<close>
  "quality_factor hour = (if 10 \<le> hour \<and> hour < 15 then 1.0 else 0.5)"

subsection \<open>UV factor and synthesis rate (lines 51-54)\<close>

definition uv_factor :: "real \<Rightarrow> py_error + real" where
  \<comment> \<open>\<open>(uv_index * 3.0) / (4.0 + uv_index)\<close>, an unguarded float division.\<close>
  "uv_factor u =
     (if 4.0 + u = 0 then Inl ZeroDivisionError else Inr ((u * 3.0) / (4.0 + u)))"

definition vitamin_d_rate :: "real \<Rightarrow> real \<Rightarrow> real \<Rightarrow> real \<Rightarrow> real" where
  "vitamin_d_rate uvf cf qf af =
     base_rate * uvf * cf * skin_type_factor * age_factor * qf * af"

subsection \<open>Time to 15,000 IU (lines 57-61)\<close>

definition time_to_15000_minutes :: "real \<Rightarrow> pyfloat" where
  "time_to_15000_minutes rate =
     (if rate > 0 then
        (let time_to_15000_hours = 15000 / rate in Fin (time_to_15000_hours * 60))
      else PosInf)"

subsection \<open>Burn time (lines 64-69)\<close>

definition burn_times :: "real \<Rightarrow> pyfloat \<times> pyfloat" where
  \<comment> \<open>The pair \<open>(burn_time_minutes, safety_warning_minutes)\<close> that the branch assigns.\<close>
  "burn_times u =
     (if u > 0 then
        (let b = med_uv1 / u in (Fin b, Fin (b * 0.8)))
      else (PosInf, PosInf))"

definition burn_time_minutes :: "real \<Rightarrow> pyfloat" where
  "burn_time_minutes u = fst (burn_times u)"

definition safety_warning_minutes :: "real \<Rightarrow> pyfloat" where
  "safety_warning_minutes u = snd (burn_times u)"

subsection \<open>The numeric pipeline (lines 51-69)\<close>

record results =
  r_uv_factor :: real
  r_vitamin_d_rate :: real
  r_time_to_15000_minutes :: pyfloat
  r_burn_time_minutes :: pyfloat
  r_safety_warning_minutes :: pyfloat

definition pipeline :: "real \<Rightarrow> real \<Rightarrow> real \<Rightarrow> real \<Rightarrow> py_error + results" where
  \<comment> \<open>Arguments: \<open>uv_index\<close>, \<open>clothing_factor\<close>, \<open>quality_factor\<close>,
      \<open>adaptation_factor\<close>.\<close>
  "pipeline u cf qf af =
     (case uv_factor u of
        Inl e \<Rightarrow> Inl e
      | Inr uvf \<Rightarrow>
          (let rate = vitamin_d_rate uvf cf qf af in
           Inr \<lparr> r_uv_factor = uvf,
                 r_vitamin_d_rate = rate,
                 r_time_to_15000_minutes = time_to_15000_minutes rate,
                 r_burn_time_minutes = burn_time_minutes u,
                 r_safety_warning_minutes = safety_warning_minutes u \<rparr>))"

definition calculator :: "inputs \<Rightarrow> py_error + results" where
  \<comment> \<open>The script from the widgets on: look the clothing factor up, take the quality
      factor from the clock, run the formulas.\<close>
  "calculator i =
     (case clothing_factor (selected_clothing i) of
        Inl e \<Rightarrow> Inl e
      | Inr cf \<Rightarrow>
          pipeline (uv_index i) cf (quality_factor (current_hour i)) (adaptation_factor i))"

subsection \<open>Number formatting and the result lines (lines 78-82)\<close>

text \<open>
  The f-string format \<open>:.1f\<close> prints a finite float with one digit after the point,
  rounding the value to the nearest tenth and a tie to the even neighbour, with a
  leading minus sign for a negative value; it prints positive infinity as \<open>inf\<close>.
\<close>

fun digits :: "nat \<Rightarrow> string" where
  "digits n =
     (if n < 10 then [''0123456789'' ! n]
      else digits (n div 10) @ [''0123456789'' ! (n mod 10)])"

declare digits.simps [simp del]

definition round_half_even :: "real \<Rightarrow> int" where
  "round_half_even y =
     (let f = \<lfloor>y\<rfloor>; d = y - of_int f in
      if d < 1/2 then f
      else if d > 1/2 then f + 1
      else if even f then f else f + 1)"

fun format_1f :: "pyfloat \<Rightarrow> string" where
  "format_1f PosInf = ''inf''"
| "format_1f (Fin x) =
     (let m = nat (round_half_even (\<bar>x\<bar> * 10)) in
      (if x < 0 then ''-'' else '''') @ digits (m div 10) @ ''.'' @ digits (m mod 10))"

definition time_line :: "pyfloat \<Rightarrow> string" where
  "time_line t = ''Approximately '' @ format_1f t @ '' minutes of exposure.''"

definition burn_line :: "pyfloat \<Rightarrow> string" where
  "burn_line b = ''Technical burn time (1 MED): '' @ format_1f b @ '' minutes.''"

definition safety_line :: "pyfloat \<Rightarrow> string" where
  "safety_line s =
     ''Safety warning threshold (80% of burn time): '' @ format_1f s @ '' minutes.''"

subsection \<open>Winter supplement notice (lines 85-99)\<close>

text \<open>
  The warning is an f-string whose text is fixed but for two interpolated values, the
  BMI printed by \<open>:.1f\<close> and \<open>supplement_rec\<close>; the notice keeps these two. The
  informational note is a constant text and is kept whole.
\<close>

datatype notice =
  Warning string nat  \<comment> \<open>\<open>st.warning\<close>: the printed BMI and \<open>supplement_rec\<close>\<close>
| Info string         \<comment> \<open>\<open>st.info\<close>\<close>

definition info_text :: string where
  "info_text =
     ''It'' @ [CHR 0x27] @ ''s not winter (Nov-Feb), so sun exposure can contribute '' @
     ''to vitamin D needs, but monitor UV levels.''"

definition supplement_rec :: "real \<Rightarrow> nat" where
  \<comment> \<open>The value of \<open>supplement_rec\<close> inside the winter branch, for a BMI \<open>b\<close>.\<close>
  "supplement_rec b = (if b \<ge> 30 then 4000 else if b \<ge> 25 then 3000 else 2000)"

definition supplement_notice :: "int \<Rightarrow> real \<Rightarrow> notice" where
  "supplement_notice month b =
     (if month \<in> set [11, 12, 1, 2]
      then Warning (format_1f (Fin b)) (supplement_rec b)
      else Info info_text)"

definition winter_notice :: "int \<Rightarrow> notice" where
  \<comment> \<open>The script's own notice: the BMI is the one of the fixed height and weight.\<close>
  "winter_notice month = supplement_notice month bmi"

section \<open>Lines 51 to 69 in binary64\<close>

subsection \<open>Doubles and rounding\<close>

text \<open>
  A value of the arithmetic is a finite double, an infinity or a NaN. A finite double
  is kept as the real number it denotes; the two zeros are not told apart, since
  nothing in lines 51 to 69 can observe the sign of a zero (a division by either zero
  raises, and a comparison treats them alike).
\<close>

datatype binary64 = Num real | PInf | NInf | NaN

text \<open>
  \<open>pow2 n\<close> is \<open>2 ^ n\<close>, kept as a constant of its own so that the large powers of the
  format stay folded in proofs.
\<close>

definition pow2 :: "nat \<Rightarrow> real" where
  "pow2 n = 2 ^ n"

text \<open>
  The spacing of the doubles around \<open>x\<close>: \<open>2 ^ (e - 52)\<close> for \<open>2 ^ e \<le> \<bar>x\<bar> < 2 ^ (e + 1)\<close>
  with \<open>e \<ge> -1022\<close>, and \<open>2 ^ (-1074)\<close> below \<open>2 ^ (-1022)\<close>, where the doubles are
  subnormal. The exponent is read off the bit length of \<open>\<lfloor>\<bar>x\<bar> \<times> 2 ^ 1074\<rfloor>\<close>.
\<close>

definition ulp64 :: "real \<Rightarrow> real" where
  "ulp64 x = pow2 (nat (bitlen \<lfloor>\<bar>x\<bar> * pow2 1074\<rfloor> - 53)) / pow2 1074"

text \<open>
  Rounding to the nearest multiple of the spacing, a tie to the even multiple, with the
  exponent unbounded; \<open>fl\<close> then turns a magnitude of \<open>2 ^ 1024\<close> or more into an
  infinity. \<open>fl\<close> of a decimal literal is the double the parser reads for it.
\<close>

definition round64 :: "real \<Rightarrow> real" where
  "round64 x = of_int (round_half_even (x / ulp64 x)) * ulp64 x"

definition fl :: "real \<Rightarrow> binary64" where
  "fl x =
     (let r = round64 x in
      if pow2 1024 \<le> r then PInf else if r \<le> - pow2 1024 then NInf else Num r)"

definition is_double :: "real \<Rightarrow> bool" where
  "is_double x \<longleftrightarrow> fl x = Num x"

definition eps64 :: real where
  "eps64 = 1 / pow2 53"

definition eta64 :: real where
  "eta64 = 1 / pow2 1074"

subsection \<open>Float operations\<close>

text \<open>
  Python's \<open>*\<close>, \<open>+\<close> and \<open>/\<close> on floats: the IEEE result, except that a division by
  zero raises \<open>ZeroDivisionError\<close> whatever the dividend is. An integer operand
  (\<open>21000\<close>, \<open>15000\<close>, \<open>425\<close>) is converted to the double of the same value first.
\<close>

fun sgn64 :: "binary64 \<Rightarrow> real" where
  "sgn64 (Num x) = sgn x"
| "sgn64 PInf = 1"
| "sgn64 NInf = - 1"
| "sgn64 NaN = 0"

definition inf64 :: "real \<Rightarrow> binary64" where
  "inf64 s = (if 0 < s then PInf else if s < 0 then NInf else NaN)"

fun f_mul :: "binary64 \<Rightarrow> binary64 \<Rightarrow> binary64" where
  "f_mul (Num x) (Num y) = fl (x * y)"
| "f_mul NaN b = NaN"
| "f_mul a NaN = NaN"
| "f_mul a b = inf64 (sgn64 a * sgn64 b)"

fun f_add :: "binary64 \<Rightarrow> binary64 \<Rightarrow> binary64" where
  "f_add (Num x) (Num y) = fl (x + y)"
| "f_add NaN b = NaN"
| "f_add a NaN = NaN"
| "f_add PInf NInf = NaN"
| "f_add NInf PInf = NaN"
| "f_add PInf b = PInf"
| "f_add a PInf = PInf"
| "f_add NInf b = NInf"
| "f_add a NInf = NInf"

fun f_div :: "binary64 \<Rightarrow> binary64 \<Rightarrow> py_error + binary64" where
  "f_div a (Num y) =
     (if y = 0 then Inl ZeroDivisionError
      else case a of
        Num x \<Rightarrow> Inr (fl (x / y))
      | NaN \<Rightarrow> Inr NaN
      | _ \<Rightarrow> Inr (inf64 (sgn64 a * sgn y)))"
| "f_div a NaN = Inr NaN"
| "f_div NaN b = Inr NaN"
| "f_div (Num x) b = Inr (Num 0)"
| "f_div a b = Inr NaN"

text \<open>The comparison \<open>x > 0\<close>: false for a NaN.\<close>

fun f_pos :: "binary64 \<Rightarrow> bool" where
  "f_pos (Num x) = (0 < x)"
| "f_pos PInf = True"
| "f_pos NInf = False"
| "f_pos NaN = False"

subsection \<open>The formulas (lines 51-69)\<close>

definition uv_factor64 :: "binary64 \<Rightarrow> py_error + binary64" where
  "uv_factor64 u = f_div (f_mul u (Num 3.0)) (f_add (Num 4.0) u)"

definition vitamin_d_rate64 ::
    "binary64 \<Rightarrow> binary64 \<Rightarrow> binary64 \<Rightarrow> binary64 \<Rightarrow> binary64" where
  "vitamin_d_rate64 uvf cf qf af =
     f_mul (f_mul (f_mul (f_mul (f_mul (f_mul (Num base_rate) uvf) cf)
       (Num skin_type_factor)) (fl age_factor)) qf) af"

definition time_to_15000_minutes64 :: "binary64 \<Rightarrow> py_error + binary64" where
  "time_to_15000_minutes64 rate =
     (if f_pos rate then
        (case f_div (Num 15000) rate of
           Inl e \<Rightarrow> Inl e
         | Inr time_to_15000_hours \<Rightarrow> Inr (f_mul time_to_15000_hours (Num 60)))
      else Inr PInf)"

definition burn_times64 :: "binary64 \<Rightarrow> py_error + binary64 \<times> binary64" where
  "burn_times64 u =
     (if f_pos u then
        (case f_div (Num med_uv1) u of
           Inl e \<Rightarrow> Inl e
         | Inr b \<Rightarrow> Inr (b, f_mul b (fl 0.8)))
      else Inr (PInf, PInf))"

record results64 =
  r64_uv_factor :: binary64
  r64_vitamin_d_rate :: binary64
  r64_time_to_15000_minutes :: binary64
  r64_burn_time_minutes :: binary64
  r64_safety_warning_minutes :: binary64

definition pipeline64 ::
    "binary64 \<Rightarrow> binary64 \<Rightarrow> binary64 \<Rightarrow> binary64 \<Rightarrow> py_error + results64" where
  "pipeline64 u cf qf af =
     (case uv_factor64 u of
        Inl e \<Rightarrow> Inl e
      | Inr uvf \<Rightarrow>
          (let rate = vitamin_d_rate64 uvf cf qf af in
           case time_to_15000_minutes64 rate of
             Inl e \<Rightarrow> Inl e
           | Inr t \<Rightarrow>
               (case burn_times64 u of
                  Inl e \<Rightarrow> Inl e
                | Inr (b, s) \<Rightarrow>
                    Inr \<lparr> r64_uv_factor = uvf,
                          r64_vitamin_d_rate = rate,
                          r64_time_to_15000_minutes = t,
                          r64_burn_time_minutes = b,
                          r64_safety_warning_minutes = s \<rparr>)))"

section \<open>Properties\<close>

subsection \<open>Auxiliary facts: exact reading\<close>

lemma pipeline_ok:
  "4 + u \<noteq> 0 \<Longrightarrow>
   pipeline u cf qf af =
     Inr \<lparr> r_uv_factor = u * 3 / (4 + u),
           r_vitamin_d_rate = vitamin_d_rate (u * 3 / (4 + u)) cf qf af,
           r_time_to_15000_minutes =
             time_to_15000_minutes (vitamin_d_rate (u * 3 / (4 + u)) cf qf af),
           r_burn_time_minutes = burn_time_minutes u,
           r_safety_warning_minutes = safety_warning_minutes u \<rparr>"
  by (simp add: pipeline_def uv_factor_def Let_def)

lemma bmi_value: "bmi = 510291000 / 22080601"
  by (simp add: bmi_def bmi_of_def weight_kg_def height_m_def weight_lbs_def
      height_inches_def power2_eq_square)

lemma scenario_value:
  "pipeline 9 1 1 0.8 =
     Inr \<lparr> r_uv_factor = 27 / 13, r_vitamin_d_rate = 430920 / 13,
           r_time_to_15000_minutes = Fin (32500 / 1197),
           r_burn_time_minutes = Fin (425 / 9),
           r_safety_warning_minutes = Fin (340 / 9) \<rparr>"
  by (simp add: pipeline_ok vitamin_d_rate_def base_rate_def skin_type_factor_def
      age_factor_def time_to_15000_minutes_def burn_time_minutes_def
      safety_warning_minutes_def burn_times_def med_uv1_def)

lemma finite_has_point: "CHR ''.'' \<in> set (format_1f (Fin x))"
  by (simp add: Let_def)

subsection \<open>Auxiliary facts: binary64\<close>

lemma pow2_pos [simp]: "0 < pow2 n"
  by (simp add: pow2_def)

lemma pow2_nonneg [simp]: "0 \<le> pow2 n"
  by (simp add: pow2_def)

lemma pow2_ne0 [simp]: "pow2 n \<noteq> 0"
  by (simp add: pow2_def)

lemma pow2_0 [simp]: "pow2 0 = 1"
  by (simp add: pow2_def)

lemma pow2_add: "pow2 (m + n) = pow2 m * pow2 n"
  by (simp add: pow2_def power_add)

lemma pow2_Suc: "pow2 (Suc n) = 2 * pow2 n"
  by (simp add: pow2_def)

lemma pow2_of_int: "real_of_int (2 ^ n) = pow2 n"
  by (simp add: pow2_def)

lemma pow2_mono: "m \<le> n \<Longrightarrow> pow2 m \<le> pow2 n"
  by (simp add: pow2_def)

lemma rhe_cases:
  "round_half_even y = \<lfloor>y\<rfloor> \<and> y - of_int \<lfloor>y\<rfloor> \<le> 1 / 2 \<or>
   round_half_even y = \<lfloor>y\<rfloor> + 1 \<and> 1 / 2 \<le> y - of_int \<lfloor>y\<rfloor>"
  unfolding round_half_even_def Let_def by auto

lemma rhe_err: "\<bar>of_int (round_half_even y) - y\<bar> \<le> 1 / 2"
proof -
  have b: "of_int \<lfloor>y\<rfloor> \<le> y" "y < of_int \<lfloor>y\<rfloor> + 1" by linarith+
  from rhe_cases [of y] show ?thesis
  proof
    assume "round_half_even y = \<lfloor>y\<rfloor> \<and> y - of_int \<lfloor>y\<rfloor> \<le> 1 / 2"
    then show ?thesis using b by simp
  next
    assume "round_half_even y = \<lfloor>y\<rfloor> + 1 \<and> 1 / 2 \<le> y - of_int \<lfloor>y\<rfloor>"
    then show ?thesis using b by simp
  qed
qed

lemma rhe_of_int: "round_half_even (of_int k) = k"
  by (simp add: round_half_even_def)

lemma rhe_nonneg: "0 \<le> y \<Longrightarrow> 0 \<le> round_half_even y"
  using rhe_cases [of y] by auto

lemma ulp64_pos: "0 < ulp64 x"
  by (simp add: ulp64_def)

lemma int_pow2_less: "(2::int) ^ m < 2 ^ n \<Longrightarrow> m < n"
  by (rule power_less_imp_less_exp [of 2]) simp_all

lemma bitlen_unique:
  assumes "(2::int) ^ k \<le> m" and "m < 2 ^ Suc k"
  shows "bitlen m = int k + 1"
proof -
  have pos: "0 < m" using assms(1) by (smt (verit) zero_less_power)
  from bitlen_bounds [OF pos] assms
  have "(2::int) ^ nat (bitlen m - 1) < 2 ^ Suc k" "(2::int) ^ k < 2 ^ nat (bitlen m)"
    by linarith+
  then have "nat (bitlen m - 1) < Suc k" "k < nat (bitlen m)"
    by (simp_all only: int_pow2_less)
  then show ?thesis by linarith
qed

lemma bitlen_small:
  assumes "m < (2::int) ^ k"
  shows "bitlen m \<le> int k"
proof (cases "0 < m")
  case True
  from bitlen_bounds [OF True] assms have "(2::int) ^ nat (bitlen m - 1) < 2 ^ k" by linarith
  then have "nat (bitlen m - 1) < k" by (rule int_pow2_less)
  then show ?thesis by linarith
next
  case False
  then have "bitlen m = 0" by (simp add: bitlen_eq_zero_iff)
  then show ?thesis by simp
qed

lemma floor_ge_pow2: "pow2 k \<le> y \<Longrightarrow> (2::int) ^ k \<le> \<lfloor>y\<rfloor>"
  by (simp add: le_floor_iff pow2_def)

lemma floor_less_pow2: "y < pow2 k \<Longrightarrow> \<lfloor>y\<rfloor> < (2::int) ^ k"
  by (simp add: floor_less_iff pow2_def)

lemma ulp64_le: "ulp64 x \<le> max (\<bar>x\<bar> / pow2 52) (1 / pow2 1074)"
proof -
  let ?m = "\<lfloor>\<bar>x\<bar> * pow2 1074\<rfloor>"
  let ?k = "nat (bitlen ?m - 53)"
  show ?thesis
  proof (cases "bitlen ?m \<le> 53")
    case True
    then have "?k = 0" by simp
    then show ?thesis by (simp add: ulp64_def)
  next
    case False
    then have pos: "0 < ?m" using bitlen_eq_zero_iff [of ?m] by linarith
    have "(2::int) ^ nat (bitlen ?m - 1) \<le> ?m"
      using bitlen_bounds [OF pos] by simp
    moreover have "nat (bitlen ?m - 1) = ?k + 52"
      using False by simp
    ultimately have "(2::int) ^ (?k + 52) \<le> ?m" by simp
    then have "real_of_int ((2::int) ^ (?k + 52)) \<le> real_of_int ?m"
      by (simp only: of_int_le_iff)
    then have "pow2 (?k + 52) \<le> real_of_int ?m"
      by (simp only: pow2_of_int)
    also have "real_of_int ?m \<le> \<bar>x\<bar> * pow2 1074" by (rule of_int_floor_le)
    finally have "pow2 ?k * pow2 52 \<le> \<bar>x\<bar> * pow2 1074"
      by (simp only: pow2_add)
    then have "pow2 ?k / pow2 1074 \<le> \<bar>x\<bar> / pow2 52"
      by (simp add: field_simps)
    then show ?thesis by (simp add: ulp64_def)
  qed
qed

lemma round64_err: "\<bar>round64 x - x\<bar> \<le> ulp64 x / 2"
proof -
  define u where "u = ulp64 x"
  define k where "k = real_of_int (round_half_even (x / u))"
  have u: "0 < u" unfolding u_def by (rule ulp64_pos)
  have "\<bar>k - x / u\<bar> \<le> 1 / 2" unfolding k_def by (rule rhe_err)
  then have "\<bar>k - x / u\<bar> * u \<le> 1 / 2 * u"
    using u by (simp only: mult_le_cancel_right_pos)
  moreover have "\<bar>k - x / u\<bar> * u = \<bar>k * u - x\<bar>"
  proof -
    have "\<bar>k - x / u\<bar> * u = \<bar>(k - x / u) * u\<bar>"
      using u by (simp add: abs_mult)
    also have "(k - x / u) * u = k * u - x"
      using u by (simp add: left_diff_distrib)
    finally show ?thesis .
  qed
  moreover have "round64 x = k * u"
    by (simp add: round64_def k_def u_def)
  ultimately show ?thesis by (simp add: u_def)
qed

lemma half_trans: "a \<le> u / 2 \<Longrightarrow> u \<le> b \<Longrightarrow> a \<le> b / (2::real)"
  by linarith

lemma round64_rel:
  assumes "1 / pow2 1022 \<le> \<bar>x\<bar>"
  shows "\<bar>round64 x - x\<bar> \<le> \<bar>x\<bar> / pow2 53"
proof -
  have "pow2 1074 = pow2 1022 * pow2 52" "pow2 53 = pow2 52 * 2"
    by (simp_all add: pow2_add [symmetric] pow2_def)
  then have e: "1 / pow2 1074 = (1 / pow2 1022) / pow2 52" "\<bar>x\<bar> / pow2 52 / 2 = \<bar>x\<bar> / pow2 53"
    by simp_all
  have "(1 / pow2 1022) / pow2 52 \<le> \<bar>x\<bar> / pow2 52"
    using assms by (rule divide_right_mono) simp
  then have "max (\<bar>x\<bar> / pow2 52) (1 / pow2 1074) = \<bar>x\<bar> / pow2 52"
    unfolding e by simp
  with ulp64_le [of x] have "ulp64 x \<le> \<bar>x\<bar> / pow2 52" by simp
  with round64_err [of x] have "\<bar>round64 x - x\<bar> \<le> (\<bar>x\<bar> / pow2 52) / 2" by (rule half_trans)
  then show ?thesis unfolding e .
qed

lemma round64_abs: "\<bar>round64 x - x\<bar> \<le> \<bar>x\<bar> / pow2 53 + 1 / pow2 1075"
proof -
  have "pow2 1075 = pow2 1074 * 2" "pow2 53 = pow2 52 * 2"
    by (simp_all add: pow2_add [symmetric] pow2_def)
  then have e: "(\<bar>x\<bar> / pow2 52 + 1 / pow2 1074) / 2 = \<bar>x\<bar> / pow2 53 + 1 / pow2 1075"
    by (simp add: add_divide_distrib)
  have "0 \<le> \<bar>x\<bar> / pow2 52" "(0::real) \<le> 1 / pow2 1074" by simp_all
  then have "max (\<bar>x\<bar> / pow2 52) (1 / pow2 1074) \<le> \<bar>x\<bar> / pow2 52 + 1 / pow2 1074"
    by linarith
  with ulp64_le [of x] have "ulp64 x \<le> \<bar>x\<bar> / pow2 52 + 1 / pow2 1074" by linarith
  with round64_err [of x]
  have "\<bar>round64 x - x\<bar> \<le> (\<bar>x\<bar> / pow2 52 + 1 / pow2 1074) / 2" by (rule half_trans)
  then show ?thesis unfolding e .
qed

lemma round64_nonneg: "0 \<le> x \<Longrightarrow> 0 \<le> round64 x"
  using ulp64_pos [of x] by (simp add: round64_def rhe_nonneg)

lemma round64_grid: "\<exists>K::int. round64 x = of_int K / pow2 1074"
proof -
  define n where "n = nat (bitlen \<lfloor>\<bar>x\<bar> * pow2 1074\<rfloor> - 53)"
  define k where "k = round_half_even (x / ulp64 x)"
  have a: "round64 x = real_of_int k * pow2 n / pow2 1074"
    by (simp add: round64_def k_def) (simp add: ulp64_def n_def)
  have b: "real_of_int (k * 2 ^ n) = real_of_int k * pow2 n"
    by (simp add: pow2_def)
  have "round64 x = real_of_int (k * 2 ^ n) / pow2 1074"
    unfolding a b ..
  then show ?thesis ..
qed

lemma ulp64_subnormal:
  assumes "\<bar>x\<bar> < 1 / pow2 1022"
  shows "ulp64 x = 1 / pow2 1074"
proof -
  let ?m = "\<lfloor>\<bar>x\<bar> * pow2 1074\<rfloor>"
  have s: "pow2 1074 = pow2 1022 * pow2 52"
    by (simp add: pow2_add [symmetric])
  have "\<bar>x\<bar> * pow2 1022 < 1"
    using assms by (simp add: field_simps)
  then have "\<bar>x\<bar> * pow2 1022 * pow2 52 < 1 * pow2 52"
    by (simp only: mult_less_cancel_right_pos pow2_pos)
  then have "\<bar>x\<bar> * pow2 1074 < pow2 52"
    by (simp add: s mult.assoc)
  then have "?m < 2 ^ 52" by (rule floor_less_pow2)
  then have "bitlen ?m \<le> 52" using bitlen_small [of ?m 52] by simp
  then have "nat (bitlen ?m - 53) = 0" by simp
  then show ?thesis by (simp add: ulp64_def)
qed

lemma ulp64_normal:
  assumes "pow2 n \<le> \<bar>x\<bar> * pow2 1022" and "\<bar>x\<bar> * pow2 1022 < pow2 (Suc n)"
  shows "ulp64 x = pow2 n / pow2 1074"
proof -
  let ?m = "\<lfloor>\<bar>x\<bar> * pow2 1074\<rfloor>"
  have s: "\<bar>x\<bar> * pow2 1074 = (\<bar>x\<bar> * pow2 1022) * pow2 52"
    by (simp add: pow2_add [symmetric])
  have "pow2 n * pow2 52 \<le> (\<bar>x\<bar> * pow2 1022) * pow2 52"
    using assms(1) by (simp only: mult_le_cancel_right_pos pow2_pos)
  then have lo: "pow2 (n + 52) \<le> \<bar>x\<bar> * pow2 1074"
    by (simp only: s pow2_add)
  have "(\<bar>x\<bar> * pow2 1022) * pow2 52 < pow2 (Suc n) * pow2 52"
    using assms(2) by (simp only: mult_less_cancel_right_pos pow2_pos)
  moreover have "pow2 (Suc n) * pow2 52 = pow2 (Suc (n + 52))"
    by (simp add: pow2_def power_add)
  ultimately have hi: "\<bar>x\<bar> * pow2 1074 < pow2 (Suc (n + 52))"
    by (simp only: s)
  from lo have "(2::int) ^ (n + 52) \<le> ?m" by (rule floor_ge_pow2)
  moreover from hi have "?m < (2::int) ^ Suc (n + 52)" by (rule floor_less_pow2)
  ultimately have "bitlen ?m = int (n + 52) + 1" by (rule bitlen_unique)
  then have "nat (bitlen ?m - 53) = n" by simp
  then show ?thesis by (simp add: ulp64_def)
qed

lemma round64_subnormal_exact:
  assumes "x = of_int K / pow2 1074" and "\<bar>x\<bar> < 1 / pow2 1022"
  shows "round64 x = x"
proof -
  note u = ulp64_subnormal [OF assms(2)]
  have "x / ulp64 x = x * pow2 1074" unfolding u by simp
  also have "\<dots> = of_int K" unfolding assms(1) by simp
  finally have q: "x / ulp64 x = of_int K" .
  have "round64 x = of_int (round_half_even (x / ulp64 x)) * ulp64 x"
    by (rule round64_def)
  also have "\<dots> = of_int K * ulp64 x" by (simp only: q rhe_of_int)
  also have "\<dots> = of_int K * (1 / pow2 1074)" by (simp only: u)
  also have "\<dots> = x" unfolding assms(1) by simp
  finally show ?thesis .
qed

lemma fl_small:
  assumes "\<bar>round64 x\<bar> < pow2 1024"
  shows "fl x = Num (round64 x)"
proof -
  have "\<not> pow2 1024 \<le> round64 x" "\<not> round64 x \<le> - pow2 1024"
    using assms by linarith+
  then show ?thesis by (simp add: fl_def Let_def)
qed

lemma fl_eval:
  assumes "pow2 n \<le> \<bar>x\<bar> * pow2 1022" and "\<bar>x\<bar> * pow2 1022 < pow2 (Suc n)"
    and "round_half_even (x * pow2 1074 / pow2 n) = k"
    and "\<bar>real_of_int k\<bar> * pow2 n < pow2 1024 * pow2 1074"
  shows "fl x = Num (of_int k * pow2 n / pow2 1074)"
proof -
  note u = ulp64_normal [OF assms(1,2)]
  have "x / ulp64 x = x * pow2 1074 / pow2 n" unfolding u by simp
  then have r: "round64 x = of_int k * pow2 n / pow2 1074"
    unfolding round64_def using assms(3) by (simp add: u)
  have "\<bar>real_of_int k * pow2 n / pow2 1074\<bar> < pow2 1024"
    using assms(4) by (simp add: abs_mult field_simps)
  then have "\<bar>round64 x\<bar> < pow2 1024" unfolding r .
  then have "fl x = Num (round64 x)" by (rule fl_small)
  then show ?thesis unfolding r .
qed

lemma fl_eval_inf:
  assumes "pow2 n \<le> x * pow2 1022" and "x * pow2 1022 < pow2 (Suc n)" and "0 \<le> x"
    and "round_half_even (x * pow2 1074 / pow2 n) = k"
    and "pow2 1024 * pow2 1074 \<le> real_of_int k * pow2 n"
  shows "fl x = PInf"
proof -
  have ax: "\<bar>x\<bar> = x" using assms(3) by simp
  note u = ulp64_normal [of n x, unfolded ax, OF assms(1,2)]
  have "x / ulp64 x = x * pow2 1074 / pow2 n" unfolding u by simp
  then have r: "round64 x = of_int k * pow2 n / pow2 1074"
    unfolding round64_def using assms(4) by (simp add: u)
  have "pow2 1024 \<le> real_of_int k * pow2 n / pow2 1074"
    using assms(5) by (simp add: field_simps)
  then show ?thesis
    unfolding fl_def Let_def r by simp
qed

lemma f_div_Num: "y \<noteq> 0 \<Longrightarrow> f_div (Num x) (Num y) = Inr (fl (x / y))"
  by simp

lemma f_mul_PInf_pos: "0 < y \<Longrightarrow> f_mul PInf (Num y) = PInf"
  by (simp add: inf64_def)

lemma lit_095: "fl (0.95) = Num (4278419646001971 / pow2 52)"
proof -
  have "fl (0.95) = Num (of_int 8556839292003942 * pow2 1021 / pow2 1074)"
    by (rule fl_eval) (simp_all add: pow2_def round_half_even_def)
  also have "of_int 8556839292003942 * pow2 1021 / pow2 1074 = (4278419646001971 / pow2 52 :: real)"
    by (simp add: pow2_def)
  finally show ?thesis .
qed

lemma lit_08: "fl (0.8) = Num (3602879701896397 / pow2 52)"
proof -
  have "fl (0.8) = Num (of_int 7205759403792794 * pow2 1021 / pow2 1074)"
    by (rule fl_eval) (simp_all add: pow2_def round_half_even_def)
  also have "of_int 7205759403792794 * pow2 1021 / pow2 1074 = (3602879701896397 / pow2 52 :: real)"
    by (simp add: pow2_def)
  finally show ?thesis .
qed

lemma uv_lo_dbl: "fl (2476979795053773 / pow2 51) = Num (2476979795053773 / pow2 51)"
proof -
  have "fl (2476979795053773 / pow2 51) = Num (of_int 4953959590107546 * pow2 1022 / pow2 1074)"
    by (rule fl_eval) (simp_all add: pow2_def round_half_even_def)
  also have "of_int 4953959590107546 * pow2 1022 / pow2 1074 = (2476979795053773 / pow2 51 :: real)"
    by (simp add: pow2_def)
  finally show ?thesis .
qed

lemma uv_lo_mul: "fl (2476979795053773 / pow2 51 * 3.0) = Num (7430939385161319 / pow2 51)"
proof -
  have "fl (2476979795053773 / pow2 51 * 3.0) = Num (of_int 7430939385161319 * pow2 1023 / pow2 1074)"
    by (rule fl_eval) (simp_all add: pow2_def round_half_even_def)
  also have "of_int 7430939385161319 * pow2 1023 / pow2 1074 = (7430939385161319 / pow2 51 :: real)"
    by (simp add: pow2_def)
  finally show ?thesis .
qed

lemma uv_lo_add: "fl (4.0 + 2476979795053773 / pow2 51) = Num (2871044762448691 / pow2 49)"
proof -
  have "fl (4.0 + 2476979795053773 / pow2 51) = Num (of_int 5742089524897382 * pow2 1024 / pow2 1074)"
    by (rule fl_eval) (simp_all add: pow2_def round_half_even_def)
  also have "of_int 5742089524897382 * pow2 1024 / pow2 1074 = (2871044762448691 / pow2 49 :: real)"
    by (simp add: pow2_def)
  finally show ?thesis .
qed

lemma uv_lo_div: "fl (7430939385161319 / pow2 51 / (2871044762448691 / pow2 49)) = Num (2914093876533851 / pow2 52)"
proof -
  have "fl (7430939385161319 / pow2 51 / (2871044762448691 / pow2 49)) = Num (of_int 5828187753067702 * pow2 1021 / pow2 1074)"
    by (rule fl_eval) (simp_all add: pow2_def round_half_even_def)
  also have "of_int 5828187753067702 * pow2 1021 / pow2 1074 = (2914093876533851 / pow2 52 :: real)"
    by (simp add: pow2_def)
  finally show ?thesis .
qed

lemma uv_hi_dbl: "fl (4953959590107547 / pow2 52) = Num (4953959590107547 / pow2 52)"
proof -
  have "fl (4953959590107547 / pow2 52) = Num (of_int 4953959590107547 * pow2 1022 / pow2 1074)"
    by (rule fl_eval) (simp_all add: pow2_def round_half_even_def)
  also have "of_int 4953959590107547 * pow2 1022 / pow2 1074 = (4953959590107547 / pow2 52 :: real)"
    by (simp add: pow2_def)
  finally show ?thesis .
qed

lemma uv_hi_mul: "fl (4953959590107547 / pow2 52 * 3.0) = Num (928867423145165 / pow2 48)"
proof -
  have "fl (4953959590107547 / pow2 52 * 3.0) = Num (of_int 7430939385161320 * pow2 1023 / pow2 1074)"
    by (rule fl_eval) (simp_all add: pow2_def round_half_even_def)
  also have "of_int 7430939385161320 * pow2 1023 / pow2 1074 = (928867423145165 / pow2 48 :: real)"
    by (simp add: pow2_def)
  finally show ?thesis .
qed

lemma uv_hi_add: "fl (4.0 + 4953959590107547 / pow2 52) = Num (5742089524897383 / pow2 50)"
proof -
  have "fl (4.0 + 4953959590107547 / pow2 52) = Num (of_int 5742089524897383 * pow2 1024 / pow2 1074)"
    by (rule fl_eval) (simp_all add: pow2_def round_half_even_def)
  also have "of_int 5742089524897383 * pow2 1024 / pow2 1074 = (5742089524897383 / pow2 50 :: real)"
    by (simp add: pow2_def)
  finally show ?thesis .
qed

lemma uv_hi_div: "fl (928867423145165 / pow2 48 / (5742089524897383 / pow2 50)) = Num (5828187753067701 / pow2 53)"
proof -
  have "fl (928867423145165 / pow2 48 / (5742089524897383 / pow2 50)) = Num (of_int 5828187753067701 * pow2 1021 / pow2 1074)"
    by (rule fl_eval) (simp_all add: pow2_def round_half_even_def)
  also have "of_int 5828187753067701 * pow2 1021 / pow2 1074 = (5828187753067701 / pow2 53 :: real)"
    by (simp add: pow2_def)
  finally show ?thesis .
qed

lemma tiny_dbl: "fl (1 / pow2 1020) = Num (1 / pow2 1020)"
proof -
  have "fl (1 / pow2 1020) = Num (of_int 4503599627370496 * pow2 2 / pow2 1074)"
    by (rule fl_eval) (simp_all add: pow2_def round_half_even_def)
  also have "of_int 4503599627370496 * pow2 2 / pow2 1074 = (1 / pow2 1020 :: real)"
    by (simp add: pow2_def)
  finally show ?thesis .
qed

lemma tiny_mul: "fl (1 / pow2 1020 * 3.0) = Num (3 / pow2 1020)"
proof -
  have "fl (1 / pow2 1020 * 3.0) = Num (of_int 6755399441055744 * pow2 3 / pow2 1074)"
    by (rule fl_eval) (simp_all add: pow2_def round_half_even_def)
  also have "of_int 6755399441055744 * pow2 3 / pow2 1074 = (3 / pow2 1020 :: real)"
    by (simp add: pow2_def)
  finally show ?thesis .
qed

lemma tiny_add: "fl (4.0 + 1 / pow2 1020) = Num (4)"
proof -
  have "fl (4.0 + 1 / pow2 1020) = Num (of_int 4503599627370496 * pow2 1024 / pow2 1074)"
    by (rule fl_eval) (simp_all add: pow2_def round_half_even_def)
  also have "of_int 4503599627370496 * pow2 1024 / pow2 1074 = (4 :: real)"
    by (simp add: pow2_def)
  finally show ?thesis .
qed

lemma tiny_div: "fl (3 / pow2 1020 / 4) = Num (3 / pow2 1022)"
proof -
  have "fl (3 / pow2 1020 / 4) = Num (of_int 6755399441055744 * pow2 1 / pow2 1074)"
    by (rule fl_eval) (simp_all add: pow2_def round_half_even_def)
  also have "of_int 6755399441055744 * pow2 1 / pow2 1074 = (3 / pow2 1022 :: real)"
    by (simp add: pow2_def)
  finally show ?thesis .
qed

lemma tiny_r1: "fl (21000 * (3 / pow2 1022)) = Num (7875 / pow2 1019)"
proof -
  have "fl (21000 * (3 / pow2 1022)) = Num (of_int 8658654068736000 * pow2 15 / pow2 1074)"
    by (rule fl_eval) (simp_all add: pow2_def round_half_even_def)
  also have "of_int 8658654068736000 * pow2 15 / pow2 1074 = (7875 / pow2 1019 :: real)"
    by (simp add: pow2_def)
  finally show ?thesis .
qed

lemma tiny_r2: "fl (7875 / pow2 1019 * 1) = Num (7875 / pow2 1019)"
proof -
  have "fl (7875 / pow2 1019 * 1) = Num (of_int 8658654068736000 * pow2 15 / pow2 1074)"
    by (rule fl_eval) (simp_all add: pow2_def round_half_even_def)
  also have "of_int 8658654068736000 * pow2 15 / pow2 1074 = (7875 / pow2 1019 :: real)"
    by (simp add: pow2_def)
  finally show ?thesis .
qed

lemma tiny_r3: "fl (7875 / pow2 1019 * 1.0) = Num (7875 / pow2 1019)"
proof -
  have "fl (7875 / pow2 1019 * 1.0) = Num (of_int 8658654068736000 * pow2 15 / pow2 1074)"
    by (rule fl_eval) (simp_all add: pow2_def round_half_even_def)
  also have "of_int 8658654068736000 * pow2 15 / pow2 1074 = (7875 / pow2 1019 :: real)"
    by (simp add: pow2_def)
  finally show ?thesis .
qed

lemma tiny_r4: "fl (7875 / pow2 1019 * (4278419646001971 / pow2 52)) = Num (29925 / pow2 1021)"
proof -
  have "fl (7875 / pow2 1019 * (4278419646001971 / pow2 52)) = Num (of_int 8225721365299200 * pow2 15 / pow2 1074)"
    by (rule fl_eval) (simp_all add: pow2_def round_half_even_def)
  also have "of_int 8225721365299200 * pow2 15 / pow2 1074 = (29925 / pow2 1021 :: real)"
    by (simp add: pow2_def)
  finally show ?thesis .
qed

lemma tiny_r5: "fl (29925 / pow2 1021 * 1) = Num (29925 / pow2 1021)"
proof -
  have "fl (29925 / pow2 1021 * 1) = Num (of_int 8225721365299200 * pow2 15 / pow2 1074)"
    by (rule fl_eval) (simp_all add: pow2_def round_half_even_def)
  also have "of_int 8225721365299200 * pow2 15 / pow2 1074 = (29925 / pow2 1021 :: real)"
    by (simp add: pow2_def)
  finally show ?thesis .
qed

lemma tiny_r6: "fl (29925 / pow2 1021 * (3602879701896397 / pow2 52)) = Num (5985 / pow2 1019)"
proof -
  have "fl (29925 / pow2 1021 * (3602879701896397 / pow2 52)) = Num (of_int 6580577092239360 * pow2 15 / pow2 1074)"
    by (rule fl_eval) (simp_all add: pow2_def round_half_even_def)
  also have "of_int 6580577092239360 * pow2 15 / pow2 1074 = (5985 / pow2 1019 :: real)"
    by (simp add: pow2_def)
  finally show ?thesis .
qed

lemma tiny_hours: "fl (15000 / (5985 / pow2 1019)) = Num (722381895117072000 * pow2 961)"
proof -
  have "fl (15000 / (5985 / pow2 1019)) = Num (of_int 5643608555602125 * pow2 2042 / pow2 1074)"
    by (rule fl_eval) (simp_all add: pow2_def round_half_even_def)
  also have "of_int 5643608555602125 * pow2 2042 / pow2 1074 = (722381895117072000 * pow2 961 :: real)"
    by (simp add: pow2_def)
  finally show ?thesis .
qed

lemma tiny_minutes: "fl (722381895117072000 * pow2 961 * 60) = PInf"
  by (rule fl_eval_inf [where n = 2048 and k = 5290883020876992])
    (simp_all add: pow2_def round_half_even_def)

lemma tiny_burn: "fl (425 / (1 / pow2 1020)) = PInf"
  by (rule fl_eval_inf [where n = 2050 and k = 7476679068876800])
    (simp_all add: pow2_def round_half_even_def)

lemma uv_lo_value:
  "uv_factor64 (Num (2476979795053773 / pow2 51)) = Inr (Num (2914093876533851 / pow2 52))"
proof -
  have nz: "(2871044762448691 / pow2 49 :: real) \<noteq> 0" by simp
  show ?thesis
    by (simp only: uv_factor64_def f_mul.simps f_add.simps uv_lo_mul uv_lo_add
        f_div_Num [OF nz] uv_lo_div)
qed

lemma uv_hi_value:
  "uv_factor64 (Num (4953959590107547 / pow2 52)) = Inr (Num (5828187753067701 / pow2 53))"
proof -
  have nz: "(5742089524897383 / pow2 50 :: real) \<noteq> 0" by simp
  show ?thesis
    by (simp only: uv_factor64_def f_mul.simps f_add.simps uv_hi_mul uv_hi_add
        f_div_Num [OF nz] uv_hi_div)
qed

lemma tiny_time: "time_to_15000_minutes64 (Num (5985 / pow2 1019)) = Inr PInf"
proof -
  have p: "f_pos (Num (5985 / pow2 1019))" by simp
  have nz: "(5985 / pow2 1019 :: real) \<noteq> 0" by simp
  show ?thesis
    by (simp only: time_to_15000_minutes64_def p if_True f_div_Num [OF nz] tiny_hours
        sum.case f_mul.simps tiny_minutes)
qed

lemma tiny_burns: "burn_times64 (Num (1 / pow2 1020)) = Inr (PInf, PInf)"
proof -
  have p: "f_pos (Num (1 / pow2 1020))" by simp
  have nz: "(1 / pow2 1020 :: real) \<noteq> 0" by simp
  have c: "(0::real) < 3602879701896397 / pow2 52" by simp
  show ?thesis
    by (simp only: burn_times64_def p if_True f_div_Num [OF nz] tiny_burn med_uv1_def
        sum.case lit_08 f_mul_PInf_pos [OF c])
qed

lemma tiny_uv: "uv_factor64 (Num (1 / pow2 1020)) = Inr (Num (3 / pow2 1022))"
proof -
  have nz: "(4 :: real) \<noteq> 0" by simp
  show ?thesis
    by (simp only: uv_factor64_def f_mul.simps f_add.simps tiny_mul tiny_add
        f_div_Num [OF nz] tiny_div)
qed

lemma tiny_rate:
  "vitamin_d_rate64 (Num (3 / pow2 1022)) (Num 1) (Num 1) (Num (3602879701896397 / pow2 52)) = Num (5985 / pow2 1019)"
  by (simp only: vitamin_d_rate64_def base_rate_def skin_type_factor_def age_factor_def
      f_mul.simps lit_095 tiny_r1 tiny_r2 tiny_r3 tiny_r4 tiny_r5 tiny_r6)

lemma tiny_pipeline:
  "pipeline64 (Num (1 / pow2 1020)) (Num 1) (Num 1) (Num (3602879701896397 / pow2 52)) =
     Inr \<lparr> r64_uv_factor = Num (3 / pow2 1022),
           r64_vitamin_d_rate = Num (5985 / pow2 1019),
           r64_time_to_15000_minutes = PInf,
           r64_burn_time_minutes = PInf,
           r64_safety_warning_minutes = PInf \<rparr>"
  by (simp only: pipeline64_def tiny_uv sum.case Let_def tiny_rate tiny_time tiny_burns
      prod.case)

lemma eps64_pos: "0 < eps64"
  by (simp add: eps64_def)

lemma eps64_small: "eps64 \<le> 1 / 1000"
  by (simp add: eps64_def pow2_def)

lemma pow2_ge_1: "1 \<le> pow2 n"
  by (simp add: pow2_def)

lemma fl_finite:
  assumes "\<bar>x\<bar> \<le> pow2 1023"
  shows "fl x = Num (round64 x)"
proof -
  have e: "\<bar>x\<bar> / pow2 53 = \<bar>x\<bar> * eps64" by (simp add: eps64_def)
  have t: "1 / pow2 1075 \<le> (1::real)" using pow2_ge_1 [of 1075] by simp
  have "\<bar>x\<bar> * eps64 \<le> \<bar>x\<bar> * (1 / 1000)"
    using eps64_small by (rule mult_left_mono) simp
  with round64_abs [of x] t have "\<bar>round64 x - x\<bar> \<le> \<bar>x\<bar> / 1000 + 1"
    unfolding e by linarith
  moreover have "pow2 1024 = 2 * pow2 1023" "(4::real) \<le> pow2 1023"
    by (simp_all add: pow2_def)
  ultimately have "\<bar>round64 x\<bar> < pow2 1024" using assms by linarith
  then show ?thesis by (rule fl_small)
qed

lemma fl_normal:
  assumes "1 / pow2 1022 \<le> x" and "x \<le> pow2 1023"
  shows "\<exists>y. fl x = Num y \<and> x * (1 - eps64) \<le> y \<and> y \<le> x * (1 + eps64)"
proof -
  have pos: "0 < x" using assms(1) pow2_pos [of 1022]
    by (smt (verit) divide_pos_pos)
  then have ax: "\<bar>x\<bar> = x" by simp
  have "fl x = Num (round64 x)" using assms(2) ax by (simp add: fl_finite)
  moreover have "\<bar>round64 x - x\<bar> \<le> x * eps64"
    using round64_rel [of x] assms(1) ax by (simp add: eps64_def)
  then have "x * (1 - eps64) \<le> round64 x \<and> round64 x \<le> x * (1 + eps64)"
    by (simp add: algebra_simps abs_le_iff)
  ultimately show ?thesis by blast
qed

lemma fl_nonneg:
  assumes "0 \<le> x" and "x \<le> pow2 1023"
  shows "\<exists>y. fl x = Num y \<and> 0 \<le> y \<and> y \<le> x * (1 + eps64) + 1 / pow2 1075"
proof -
  have ax: "\<bar>x\<bar> = x" using assms(1) by simp
  have "fl x = Num (round64 x)" using assms(2) ax by (simp add: fl_finite)
  moreover have "\<bar>round64 x - x\<bar> \<le> x * eps64 + 1 / pow2 1075"
    using round64_abs [of x] ax by (simp add: eps64_def)
  then have "round64 x \<le> x * (1 + eps64) + 1 / pow2 1075"
    by (simp add: algebra_simps abs_le_iff)
  moreover have "0 \<le> round64 x" using assms(1) by (rule round64_nonneg)
  ultimately show ?thesis by blast
qed

lemma two_roundings_up: "(1 + eps64) * (1 + eps64) \<le> 1 + 1 / pow2 51"
  by (simp add: eps64_def pow2_def)

lemma two_roundings_down: "1 - 1 / pow2 51 \<le> (1 - eps64) * (1 - eps64)"
  by (simp add: eps64_def pow2_def)

lemma three_roundings_up: "(1 + eps64) * (1 + eps64) * (1 + eps64) \<le> 1 + 1 / pow2 51"
  by (simp add: eps64_def pow2_def)

lemma three_roundings_down: "1 - 1 / pow2 51 \<le> (1 - eps64) * (1 - eps64) * (1 - eps64)"
  by (simp add: eps64_def pow2_def)

lemma quotient_roundings_up: "(1 + eps64) / (1 - eps64) * (1 + eps64) \<le> 1 + 1 / pow2 51"
  by (simp add: eps64_def pow2_def)

lemma quotient_roundings_down: "1 - 1 / pow2 51 \<le> (1 - eps64) / (1 + eps64) * (1 - eps64)"
  by (simp add: eps64_def pow2_def)

lemma close_by:
  assumes "0 \<le> (X::real)" and "X * lo \<le> t" and "t \<le> X * hi"
    and "1 - d \<le> lo" and "hi \<le> 1 + d"
  shows "\<bar>t - X\<bar> \<le> X * d"
proof -
  have "X * (1 - d) \<le> X * lo" using assms(4,1) by (rule mult_left_mono)
  moreover have "X * hi \<le> X * (1 + d)" using assms(5,1) by (rule mult_left_mono)
  ultimately have "X * (1 - d) \<le> t" "t \<le> X * (1 + d)" using assms(2,3) by linarith+
  then show ?thesis by (simp add: algebra_simps abs_le_iff)
qed

lemma fl_nonneg_cases:
  assumes "0 \<le> x"
  shows "fl x = PInf \<or> (\<exists>y. fl x = Num y \<and> 0 \<le> y)"
proof -
  have r: "0 \<le> round64 x" using assms by (rule round64_nonneg)
  have "0 < pow2 1024" by simp
  with r have "\<not> round64 x \<le> - pow2 1024" by linarith
  with r show ?thesis by (simp add: fl_def Let_def)
qed

lemma f_mul_nonneg_cases:
  assumes "a = PInf \<or> (\<exists>y. a = Num y \<and> 0 \<le> y)" and "0 < c"
  shows "f_mul a (Num c) = PInf \<or> (\<exists>y. f_mul a (Num c) = Num y \<and> 0 \<le> y)"
proof -
  from assms(1) show ?thesis
  proof
    assume "a = PInf"
    then show ?thesis using assms(2) by (simp add: inf64_def)
  next
    assume "\<exists>y. a = Num y \<and> 0 \<le> y"
    then obtain y where y: "a = Num y" "0 \<le> y" by blast
    then have "0 \<le> y * c" using assms(2) by simp
    then show ?thesis unfolding y(1) f_mul.simps by (rule fl_nonneg_cases)
  qed
qed

lemma time64_formula:
  assumes "0 < r"
  shows "time_to_15000_minutes64 (Num r) = Inr (f_mul (fl (15000 / r)) (Num 60))"
  using assms by (simp add: time_to_15000_minutes64_def)

lemma time64_accurate:
  assumes lo: "1 / pow2 1000 \<le> r" and hi: "r \<le> pow2 1000"
  shows "\<exists>t. time_to_15000_minutes64 (Num r) = Inr (Num t) \<and>
           \<bar>t - (15000 / r) * 60\<bar> \<le> (15000 / r) * 60 / pow2 51"
proof -
  have rpos: "0 < r" using lo pow2_pos [of 1000] by (smt (verit) divide_pos_pos)
  define x where "x = 15000 / r"
  define A where "A = 1 / pow2 1000"
  define B where "B = pow2 1000"
  define P where "P = 1 / pow2 1022"
  define Q where "Q = pow2 1023"
  have xpos: "0 < x" unfolding x_def using rpos by simp
  have "x \<le> 15000 / (1 / pow2 1000)"
    unfolding x_def using lo rpos by (intro divide_left_mono) simp_all
  then have xhi: "x \<le> 15000 * B" by (simp add: B_def)
  have "15000 / pow2 1000 \<le> x"
    unfolding x_def using hi rpos by (intro divide_left_mono) simp_all
  then have xlo: "15000 * A \<le> x" by (simp add: A_def)
  have n: "P \<le> 15000 * A" "900900 * B \<le> Q"
    by (simp_all add: A_def B_def P_def Q_def pow2_def)
  have Apos: "0 < A" "0 < B" by (simp_all add: A_def B_def)
  from n xlo xhi Apos have "P \<le> x" "x \<le> Q" by linarith+
  then have "1 / pow2 1022 \<le> x" "x \<le> pow2 1023" by (simp_all add: P_def Q_def)
  from fl_normal [OF this] obtain h
    where h: "fl x = Num h" "x * (1 - eps64) \<le> h" "h \<le> x * (1 + eps64)" by blast
  have e: "0 < eps64" "eps64 \<le> 1 / 1000" by (rule eps64_pos, rule eps64_small)
  have "x * eps64 \<le> x * (1 / 1000)" using e(2) xpos by (intro mult_left_mono) simp_all
  with h(2,3) have hb: "x * 999 / 1000 \<le> h" "h \<le> x * 1001 / 1000"
    by (simp_all add: algebra_simps)
  define y where "y = h * 60"
  from hb xlo xhi n Apos have "P \<le> y" "y \<le> Q"
    unfolding y_def by linarith+
  then have "1 / pow2 1022 \<le> y" "y \<le> pow2 1023" by (simp_all add: P_def Q_def)
  from fl_normal [OF this] obtain t
    where t: "fl y = Num t" "y * (1 - eps64) \<le> t" "t \<le> y * (1 + eps64)" by blast
  define X where "X = x * 60"
  have Xpos: "0 \<le> X" unfolding X_def using xpos by simp
  have "y * (1 + eps64) \<le> (x * (1 + eps64) * 60) * (1 + eps64)"
    unfolding y_def using h(3) e(1) by (intro mult_right_mono) simp_all
  also have "\<dots> = X * ((1 + eps64) * (1 + eps64))"
    by (simp add: X_def algebra_simps)
  finally have up: "t \<le> X * ((1 + eps64) * (1 + eps64))" using t(3) by linarith
  have "(x * (1 - eps64) * 60) * (1 - eps64) \<le> y * (1 - eps64)"
    unfolding y_def using h(2) e by (intro mult_right_mono) simp_all
  moreover have "(x * (1 - eps64) * 60) * (1 - eps64) = X * ((1 - eps64) * (1 - eps64))"
    by (simp add: X_def algebra_simps)
  ultimately have down: "X * ((1 - eps64) * (1 - eps64)) \<le> t" using t(2) by linarith
  have "\<bar>t - X\<bar> \<le> X * (1 / pow2 51)"
    using Xpos down up two_roundings_down two_roundings_up by (rule close_by)
  then have acc: "\<bar>t - (15000 / r) * 60\<bar> \<le> (15000 / r) * 60 / pow2 51"
    by (simp add: X_def x_def)
  have "time_to_15000_minutes64 (Num r) = Inr (f_mul (fl x) (Num 60))"
    unfolding x_def using rpos by (rule time64_formula)
  also have "\<dots> = Inr (Num t)"
    unfolding h(1) f_mul.simps y_def [symmetric] t(1) ..
  finally show ?thesis using acc by blast
qed

lemma literal_08:
  "\<exists>c. fl 0.8 = Num c \<and> 4 / 5 * (1 - eps64) \<le> c \<and> c \<le> 4 / 5 * (1 + eps64) \<and>
     799 / 1000 \<le> c \<and> c \<le> 801 / 1000"
proof -
  have "\<exists>c. fl 0.8 = Num c \<and> 0.8 * (1 - eps64) \<le> c \<and> c \<le> 0.8 * (1 + eps64)"
    by (rule fl_normal) (simp_all add: pow2_def)
  then obtain c where c: "fl 0.8 = Num c" "4 / 5 * (1 - eps64) \<le> c" "c \<le> 4 / 5 * (1 + eps64)"
    by auto
  have "4 / 5 * eps64 \<le> 4 / 5 * (1 / 1000)"
    using eps64_small by (intro mult_left_mono) simp_all
  with c(2,3) have "799 / 1000 \<le> c" "c \<le> 801 / 1000"
    by (simp_all add: algebra_simps)
  with c show ?thesis by blast
qed

lemma burn64_formula:
  assumes "0 < u"
  shows "burn_times64 (Num u) = Inr (fl (425 / u), f_mul (fl (425 / u)) (fl 0.8))"
  using assms by (simp add: burn_times64_def med_uv1_def)

lemma burn64_overflow:
  assumes "0 < u" and "fl (425 / u) = PInf"
  shows "burn_times64 (Num u) = Inr (PInf, PInf)"
proof -
  from literal_08 obtain c where c: "fl 0.8 = Num c" "799 / 1000 \<le> c" by blast
  then have "0 < c" by linarith
  then have "f_mul PInf (fl 0.8) = PInf" unfolding c(1) by (rule f_mul_PInf_pos)
  then show ?thesis unfolding burn64_formula [OF assms(1)] assms(2) by simp
qed

lemma burn64_accurate:
  assumes lo: "1 / pow2 1000 \<le> u" and hi: "u \<le> pow2 1000"
  shows "\<exists>b s. burn_times64 (Num u) = Inr (Num b, Num s) \<and>
           \<bar>b - 425 / u\<bar> \<le> 425 / u / pow2 53 \<and>
           \<bar>s - 425 / u * 0.8\<bar> \<le> 425 / u * 0.8 / pow2 51"
proof -
  have upos: "0 < u" using lo pow2_pos [of 1000] by (smt (verit) divide_pos_pos)
  define x where "x = 425 / u"
  define A where "A = 1 / pow2 1000"
  define B where "B = pow2 1000"
  define P where "P = 1 / pow2 1022"
  define Q where "Q = pow2 1023"
  have xpos: "0 < x" unfolding x_def using upos by simp
  have "x \<le> 425 / (1 / pow2 1000)"
    unfolding x_def using lo upos by (intro divide_left_mono) simp_all
  then have xhi: "x \<le> 425 * B" by (simp add: B_def)
  have "425 / pow2 1000 \<le> x"
    unfolding x_def using hi upos by (intro divide_left_mono) simp_all
  then have xlo: "425 * A \<le> x" by (simp add: A_def)
  have n: "P \<le> 300 * A" "425 * B \<le> Q"
    by (simp_all add: A_def B_def P_def Q_def pow2_def)
  have Apos: "0 < A" "0 < B" by (simp_all add: A_def B_def)
  from n xlo xhi Apos have "P \<le> x" "x \<le> Q" by linarith+
  then have "1 / pow2 1022 \<le> x" "x \<le> pow2 1023" by (simp_all add: P_def Q_def)
  from fl_normal [OF this] obtain b
    where b: "fl x = Num b" "x * (1 - eps64) \<le> b" "b \<le> x * (1 + eps64)" by blast
  from literal_08 obtain c
    where c: "fl 0.8 = Num c" "4 / 5 * (1 - eps64) \<le> c" "c \<le> 4 / 5 * (1 + eps64)"
      and cb: "799 / 1000 \<le> c" "c \<le> 801 / 1000" by blast
  have e: "0 < eps64" "eps64 \<le> 1 / 1000" by (rule eps64_pos, rule eps64_small)
  have e1: "0 \<le> 1 - eps64" "0 \<le> 1 + eps64" using e by simp_all
  have accb: "\<bar>b - x\<bar> \<le> x * eps64"
    using b(2,3) by (simp add: algebra_simps abs_le_iff)
  have bpos: "0 \<le> b" using b(2) xpos e1(1)
    by (smt (verit) mult_nonneg_nonneg)
  have cpos: "0 \<le> c" using cb(1) by linarith
  define y where "y = b * c"
  have ylo: "(x * (1 - eps64)) * (4 / 5 * (1 - eps64)) \<le> y"
    unfolding y_def using b(2) c(2) bpos e1(1) by (intro mult_mono) simp_all
  have yhi: "y \<le> (x * (1 + eps64)) * (4 / 5 * (1 + eps64))"
    unfolding y_def using b(3) c(3) bpos cpos xpos e1(2) by (intro mult_mono) simp_all
  have "x * eps64 \<le> x * (1 / 1000)" using e(2) xpos by (intro mult_left_mono) simp_all
  then have xb: "x * 999 / 1000 \<le> x * (1 - eps64)" "x * (1 + eps64) \<le> x * 1001 / 1000"
    by (simp_all add: algebra_simps)
  have "4 / 5 * eps64 \<le> 4 / 5 * (1 / 1000)"
    using e(2) by (intro mult_left_mono) simp_all
  then have cb': "799 / 1000 \<le> 4 / 5 * (1 - eps64)" "4 / 5 * (1 + eps64) \<le> 801 / 1000"
    by (simp_all add: algebra_simps)
  have "(x * 999 / 1000) * (799 / 1000) \<le> (x * (1 - eps64)) * (4 / 5 * (1 - eps64))"
    using xb(1) cb'(1) xpos by (intro mult_mono) simp_all
  with ylo have ylo': "x * 798201 / 1000000 \<le> y" by simp
  have "(x * (1 + eps64)) * (4 / 5 * (1 + eps64)) \<le> (x * 1001 / 1000) * (801 / 1000)"
    using xb(2) cb'(2) xpos e1(2) by (intro mult_mono) simp_all
  with yhi have yhi': "y \<le> x * 801801 / 1000000" by simp
  from ylo' yhi' xlo xhi n Apos have "P \<le> y" "y \<le> Q" by linarith+
  then have "1 / pow2 1022 \<le> y" "y \<le> pow2 1023" by (simp_all add: P_def Q_def)
  from fl_normal [OF this] obtain s
    where s: "fl y = Num s" "y * (1 - eps64) \<le> s" "s \<le> y * (1 + eps64)" by blast
  define X where "X = x * (4 / 5)"
  have Xpos: "0 \<le> X" unfolding X_def using xpos by simp
  have "y * (1 + eps64) \<le> ((x * (1 + eps64)) * (4 / 5 * (1 + eps64))) * (1 + eps64)"
    using yhi e1(2) by (rule mult_right_mono)
  also have "\<dots> = X * ((1 + eps64) * (1 + eps64) * (1 + eps64))"
    by (simp only: X_def mult_ac)
  finally have up: "s \<le> X * ((1 + eps64) * (1 + eps64) * (1 + eps64))"
    using s(3) by linarith
  have "((x * (1 - eps64)) * (4 / 5 * (1 - eps64))) * (1 - eps64) \<le> y * (1 - eps64)"
    using ylo e1(1) by (rule mult_right_mono)
  moreover have "((x * (1 - eps64)) * (4 / 5 * (1 - eps64))) * (1 - eps64)
      = X * ((1 - eps64) * (1 - eps64) * (1 - eps64))"
    by (simp only: X_def mult_ac)
  ultimately have down: "X * ((1 - eps64) * (1 - eps64) * (1 - eps64)) \<le> s"
    using s(2) by linarith
  have "\<bar>s - X\<bar> \<le> X * (1 / pow2 51)"
    using Xpos down up three_roundings_down three_roundings_up by (rule close_by)
  then have accs: "\<bar>s - 425 / u * 0.8\<bar> \<le> 425 / u * 0.8 / pow2 51"
    by (simp add: X_def x_def)
  from accb have accb': "\<bar>b - 425 / u\<bar> \<le> 425 / u / pow2 53"
    by (simp add: x_def eps64_def)
  have "burn_times64 (Num u) = Inr (fl x, f_mul (fl x) (fl 0.8))"
    unfolding x_def using upos by (rule burn64_formula)
  also have "\<dots> = Inr (Num b, Num s)"
    unfolding b(1) c(1) f_mul.simps y_def [symmetric] s(1) ..
  finally show ?thesis using accb' accs by blast
qed

lemma round64_0: "round64 0 = 0"
  by (simp add: round64_def round_half_even_def)

lemma fl_0: "fl 0 = Num 0"
  using fl_finite [of 0] by (simp add: round64_0)

lemma eps64_scaled:
  assumes "0 \<le> x"
  shows "1000 * (x * eps64) \<le> x"
proof -
  have "x * eps64 \<le> x * (1 / 1000)"
    using eps64_small assms by (rule mult_left_mono)
  then show ?thesis by simp
qed

lemma loosen:
  assumes "0 \<le> x" and "x * (1 - eps64) \<le> y" and "y \<le> x * (1 + eps64)"
  shows "999 * x \<le> 1000 * y" and "1000 * y \<le> 1001 * x"
proof -
  define z where "z = x * eps64"
  have z: "1000 * z \<le> x" unfolding z_def using assms(1) by (rule eps64_scaled)
  have "x * (1 - eps64) = x - z" "x * (1 + eps64) = x + z"
    by (simp_all add: z_def algebra_simps)
  with assms(2,3) have "x - z \<le> y" "y \<le> x + z" by simp_all
  with z show "999 * x \<le> 1000 * y" and "1000 * y \<le> 1001 * x"
    by linarith+
qed

lemma fl_normal_loose:
  assumes "1 / pow2 1022 \<le> x" and "x \<le> pow2 1023"
  shows "\<exists>y. fl x = Num y \<and> x * (1 - eps64) \<le> y \<and> y \<le> x * (1 + eps64) \<and>
           999 * x \<le> 1000 * y \<and> 1000 * y \<le> 1001 * x"
proof -
  have x: "0 \<le> x" using assms(1) pow2_pos [of 1022] by (smt (verit) divide_pos_pos)
  from fl_normal [OF assms] obtain y
    where y: "fl x = Num y" "x * (1 - eps64) \<le> y" "y \<le> x * (1 + eps64)" by blast
  from loosen [OF x y(2,3)] y show ?thesis by blast
qed

lemma fl_nonneg_loose:
  assumes "0 \<le> x" and "x \<le> pow2 1023"
  shows "\<exists>y. fl x = Num y \<and> 0 \<le> y \<and> 1000 * y \<le> 1001 * x + 1"
proof -
  from fl_nonneg [OF assms] obtain y
    where y: "fl x = Num y" "0 \<le> y" "y \<le> x * (1 + eps64) + 1 / pow2 1075" by blast
  define z where "z = x * eps64"
  define w where "w = 1 / pow2 1075"
  have z: "1000 * z \<le> x" unfolding z_def using assms(1) by (rule eps64_scaled)
  have w: "1000 * w \<le> 1" by (simp add: w_def pow2_def)
  have "x * (1 + eps64) + 1 / pow2 1075 = x + z + w"
    by (simp add: z_def w_def algebra_simps)
  with y(3) have "y \<le> x + z + w" by simp
  with z w have "1000 * y \<le> 1001 * x + 1" by linarith
  with y show ?thesis by blast
qed

lemma uv64_formula: "uv_factor64 (Num u) = f_div (fl (u * 3)) (fl (4 + u))"
  by (simp add: uv_factor64_def)

lemma sum_4_rounded:
  assumes "0 \<le> u" and "u \<le> 20"
  shows "\<exists>b. fl (4 + u) = Num b \<and> (4 + u) * (1 - eps64) \<le> b \<and> b \<le> (4 + u) * (1 + eps64) \<and>
           999 * (4 + u) \<le> 1000 * b \<and> 1000 * b \<le> 1001 * (4 + u)"
proof -
  have "1 / pow2 1022 \<le> (4::real)" "(24::real) \<le> pow2 1023"
    by (simp_all add: pow2_def)
  with assms have "1 / pow2 1022 \<le> 4 + u" "4 + u \<le> pow2 1023" by linarith+
  then show ?thesis by (rule fl_normal_loose)
qed

lemma uv64_range:
  assumes "0 \<le> u" and "u \<le> 20"
  shows "\<exists>f. uv_factor64 (Num u) = Inr (Num f) \<and> 0 \<le> f \<and> f < 3"
proof -
  have t: "(60::real) \<le> pow2 1023"
    by (simp add: pow2_def)
  have "0 \<le> u * 3" "u * 3 \<le> pow2 1023" using assms t by linarith+
  from fl_nonneg_loose [OF this] obtain a
    where a: "fl (u * 3) = Num a" "0 \<le> a" "1000 * a \<le> 1001 * (u * 3) + 1"
    by blast
  from sum_4_rounded [OF assms] obtain b
    where b: "fl (4 + u) = Num b" "999 * (4 + u) \<le> 1000 * b" by blast
  from b(2) assms(1) have bpos: "0 < b" by simp
  define q where "q = a / b"
  have "10 * a \<le> 26 * b" using a(3) b(2) assms by simp
  then have "a \<le> 26 / 10 * b" by simp
  then have qhi: "q \<le> 26 / 10" unfolding q_def using bpos by (simp add: pos_divide_le_eq)
  have qlo: "0 \<le> q" unfolding q_def using a(2) bpos by simp
  have "q \<le> pow2 1023" using qhi t by linarith
  from fl_nonneg_loose [OF qlo this] obtain f
    where f: "fl q = Num f" "0 \<le> f" "1000 * f \<le> 1001 * q + 1" by blast
  from f(3) qhi have "f < 3" by linarith
  moreover have "uv_factor64 (Num u) = Inr (Num f)"
    unfolding uv64_formula a(1) b(1) f_div_Num [OF bpos [THEN less_imp_neq, THEN not_sym]]
      q_def [symmetric] f(1) ..
  ultimately show ?thesis using f(2) by blast
qed

lemma uv64_zero: "uv_factor64 (Num 0) = Inr (Num 0)"
proof -
  from sum_4_rounded [of 0] obtain b
    where b: "fl (4 + 0) = Num b" "999 * (4 + 0) \<le> 1000 * b" by auto
  then have "b \<noteq> 0" by auto
  then show ?thesis
    using b(1) by (simp add: uv_factor64_def fl_0)
qed

lemma uv64_accurate:
  assumes lo: "1 / pow2 1000 \<le> u" and hi: "u \<le> 20"
  shows "\<exists>f. uv_factor64 (Num u) = Inr (Num f) \<and>
           \<bar>f - u * 3 / (4 + u)\<bar> \<le> u * 3 / (4 + u) / pow2 51"
proof -
  define A where "A = 1 / pow2 1000"
  define P where "P = 1 / pow2 1022"
  define Q where "Q = pow2 1023"
  have n: "P \<le> A / 10" "60 \<le> Q" "0 < A"
    by (simp_all add: A_def P_def Q_def pow2_def)
  have uA: "A \<le> u" using lo by (simp add: A_def)
  have upos: "0 < u" using uA n(3) by linarith
  have e: "0 < eps64" "eps64 \<le> 1 / 1000" by (rule eps64_pos, rule eps64_small)
  have e1: "0 < 1 - eps64" "0 < 1 + eps64" using e by simp_all
  have "P \<le> u * 3" "u * 3 \<le> Q" using uA n hi by simp_all
  then have "1 / pow2 1022 \<le> u * 3" "u * 3 \<le> pow2 1023" by (simp_all add: P_def Q_def)
  from fl_normal_loose [OF this] obtain a
    where a: "fl (u * 3) = Num a" "u * 3 * (1 - eps64) \<le> a" "a \<le> u * 3 * (1 + eps64)"
      and ab: "999 * (u * 3) \<le> 1000 * a" "1000 * a \<le> 1001 * (u * 3)"
    by blast
  have apos: "0 \<le> a" using ab(1) upos by linarith
  have "0 \<le> u" using upos by simp
  from sum_4_rounded [OF this hi] obtain b
    where b: "fl (4 + u) = Num b" "(4 + u) * (1 - eps64) \<le> b" "b \<le> (4 + u) * (1 + eps64)"
      and bb: "999 * (4 + u) \<le> 1000 * b" "1000 * b \<le> 1001 * (4 + u)"
    by blast
  have bpos: "0 < b" using bb(1) upos by simp
  define q where "q = a / b"
  have "b \<le> 25" using bb(2) hi by simp
  then have "u / 10 * b \<le> u / 10 * 25"
    using upos by (intro mult_left_mono) simp_all
  moreover have "u / 10 * 25 \<le> a" using ab(1) upos by simp
  ultimately have "u / 10 * b \<le> a" by (rule order_trans)
  then have qlo: "u / 10 \<le> q" unfolding q_def using bpos by (simp add: pos_le_divide_eq)
  have "10 * a \<le> 26 * b" using ab(2) bb(1) hi upos by simp
  then have "a \<le> 26 / 10 * b" by simp
  then have qhi: "q \<le> 26 / 10" unfolding q_def using bpos by (simp add: pos_divide_le_eq)
  have "P \<le> q" "q \<le> Q" using qlo qhi uA n by simp_all
  then have "1 / pow2 1022 \<le> q" "q \<le> pow2 1023" by (simp_all add: P_def Q_def)
  from fl_normal [OF this] obtain f
    where f: "fl q = Num f" "q * (1 - eps64) \<le> f" "f \<le> q * (1 + eps64)" by blast
  define X where "X = u * 3 / (4 + u)"
  have Xpos: "0 \<le> X" unfolding X_def using upos by simp
  have d1: "0 < (4 + u) * (1 - eps64)" "0 < (4 + u) * (1 + eps64)"
    using upos e1 by simp_all
  have "q \<le> (u * 3 * (1 + eps64)) / ((4 + u) * (1 - eps64))"
    unfolding q_def using a(3) b(2) apos d1(1) by (intro frac_le) simp_all
  also have "\<dots> = X * ((1 + eps64) / (1 - eps64))"
    by (simp add: X_def)
  finally have "q * (1 + eps64) \<le> X * ((1 + eps64) / (1 - eps64)) * (1 + eps64)"
    using e1(2) by (intro mult_right_mono) simp_all
  then have up: "f \<le> X * ((1 + eps64) / (1 - eps64) * (1 + eps64))"
    using f(3) by (simp add: mult.assoc)
  have "X * ((1 - eps64) / (1 + eps64)) = (u * 3 * (1 - eps64)) / ((4 + u) * (1 + eps64))"
    by (simp add: X_def)
  also have "\<dots> \<le> q"
    unfolding q_def using a(2) b(3) bpos apos by (intro frac_le) simp_all
  finally have "X * ((1 - eps64) / (1 + eps64)) * (1 - eps64) \<le> q * (1 - eps64)"
    using e1(1) by (intro mult_right_mono) simp_all
  then have down: "X * ((1 - eps64) / (1 + eps64) * (1 - eps64)) \<le> f"
    using f(2) by (simp add: mult.assoc)
  have "\<bar>f - X\<bar> \<le> X * (1 / pow2 51)"
    using Xpos down up quotient_roundings_down quotient_roundings_up by (rule close_by)
  then have acc: "\<bar>f - u * 3 / (4 + u)\<bar> \<le> u * 3 / (4 + u) / pow2 51"
    by (simp add: X_def)
  have "uv_factor64 (Num u) = Inr (Num f)"
    unfolding uv64_formula a(1) b(1) f_div_Num [OF bpos [THEN less_imp_neq, THEN not_sym]]
      q_def [symmetric] f(1) ..
  then show ?thesis using acc by blast
qed

lemma exact_quotient_increasing:
  assumes "0 \<le> u" and "u < (v::real)"
  shows "u * 3 / (4 + u) < v * 3 / (4 + v)"
  using assms by (simp add: divide_simps) (simp add: algebra_simps)

lemma eta64_pos: "0 < eta64"
  by (simp add: eta64_def)

lemma fl_Num_round:
  assumes "fl x = Num y"
  shows "y = round64 x"
  using assms by (simp add: fl_def Let_def split: if_splits)

lemma double_grid:
  assumes "is_double x"
  shows "\<exists>K::int. x = of_int K / pow2 1074"
proof -
  from assms have "x = round64 x" unfolding is_double_def by (rule fl_Num_round)
  with round64_grid [of x] show ?thesis by simp
qed

lemma grid_pos_ge:
  assumes "x = of_int K / pow2 1074" and "0 < x"
  shows "eta64 \<le> x"
proof -
  have "x * pow2 1074 = real_of_int K" by (simp add: assms(1))
  moreover have "0 < x * pow2 1074" using assms(2) by simp
  ultimately have "0 < real_of_int K" by simp
  then have "1 \<le> K" by simp
  then have "1 \<le> real_of_int K" by simp
  then have "1 / pow2 1074 \<le> real_of_int K / pow2 1074"
    by (intro divide_right_mono) simp_all
  then show ?thesis by (simp add: eta64_def assms(1))
qed

lemma round64_max: "\<bar>round64 x - x\<bar> \<le> max (\<bar>x\<bar> * eps64) (eta64 / 2)"
proof -
  have "ulp64 x / 2 \<le> max (\<bar>x\<bar> / pow2 52) (1 / pow2 1074) / 2"
    using ulp64_le [of x] by simp
  also have "\<dots> = max (\<bar>x\<bar> / pow2 52 / 2) (1 / pow2 1074 / 2)"
    by (simp add: max_def)
  also have "\<bar>x\<bar> / pow2 52 / 2 = \<bar>x\<bar> * eps64"
    by (simp add: eps64_def pow2_def)
  finally show ?thesis using round64_err [of x] by (simp add: eta64_def)
qed

lemma fl_half:
  assumes "eta64 \<le> x" and "x \<le> pow2 1023"
  shows "\<exists>y. fl x = Num y \<and> x \<le> 2 * y \<and> 2 * y \<le> 3 * x \<and> eta64 \<le> y"
proof -
  have xpos: "0 < x" using assms(1) eta64_pos by linarith
  then have ax: "\<bar>x\<bar> = x" by simp
  define z where "z = x * eps64"
  have z: "1000 * z \<le> x" unfolding z_def using xpos by (intro eps64_scaled) simp
  have "max z (eta64 / 2) \<le> x / 2" using z assms(1) xpos by simp
  with round64_max [of x] have "\<bar>round64 x - x\<bar> \<le> x / 2"
    unfolding ax z_def [symmetric] by linarith
  then have b: "x \<le> 2 * round64 x" "2 * round64 x \<le> 3 * x" by linarith+
  from b(1) xpos have "0 < round64 x" by linarith
  moreover obtain K :: int where "round64 x = of_int K / pow2 1074"
    using round64_grid by blast
  ultimately have "eta64 \<le> round64 x" by (intro grid_pos_ge)
  moreover have "fl x = Num (round64 x)" using assms(2) ax by (simp add: fl_finite)
  ultimately show ?thesis using b by blast
qed

lemma fl_above_half_eta:
  assumes "eta64 / 2 < x" and "x \<le> pow2 1023"
  shows "\<exists>y. fl x = Num y \<and> eta64 \<le> y \<and> 1000 * y \<le> 1001 * x + 1"
proof -
  have xpos: "0 < x" using assms(1) eta64_pos by linarith
  then have ax: "\<bar>x\<bar> = x" by simp
  define z where "z = x * eps64"
  have z: "1000 * z \<le> x" unfolding z_def using xpos by (intro eps64_scaled) simp
  have "max z (eta64 / 2) < x" using z assms(1) xpos by simp
  with round64_max [of x] have "\<bar>round64 x - x\<bar> < x"
    unfolding ax z_def [symmetric] by linarith
  then have "0 < round64 x" by linarith
  moreover obtain K :: int where "round64 x = of_int K / pow2 1074"
    using round64_grid by blast
  ultimately have "eta64 \<le> round64 x" by (intro grid_pos_ge)
  moreover from fl_nonneg_loose [of x] xpos assms(2) obtain y
    where y: "fl x = Num y" "1000 * y \<le> 1001 * x + 1" by auto
  moreover from y(1) have "y = round64 x" by (rule fl_Num_round)
  ultimately show ?thesis by blast
qed

lemma fl_grid:
  assumes "x = of_int K / pow2 1074" and "0 \<le> x" and "x \<le> pow2 1023"
  shows "\<exists>y. fl x = Num y \<and> 999 * x \<le> 1000 * y \<and> 1000 * y \<le> 1001 * x"
proof (cases "x < 1 / pow2 1022")
  case True
  then have "\<bar>x\<bar> < 1 / pow2 1022" using assms(2) by simp
  with assms(1) have "round64 x = x" by (rule round64_subnormal_exact)
  moreover have "fl x = Num (round64 x)" using assms(2,3) by (simp add: fl_finite)
  ultimately show ?thesis using assms(2) by simp
next
  case False
  then have "1 / pow2 1022 \<le> x" by simp
  from fl_normal_loose [OF this assms(3)] show ?thesis by blast
qed

lemma fmul_step:
  assumes m: "eta64 \<le> m" and r: "k * m \<le> r" "r \<le> U" and c: "c0 \<le> c" "c \<le> c1"
    and k: "0 \<le> k" "0 \<le> c0" "1 \<le> k * c0" and U: "U * c1 \<le> pow2 1023"
  shows "\<exists>y. f_mul (Num r) (Num c) = Num y \<and> k * c0 * m \<le> 2 * y \<and> 2 * y \<le> 3 * (U * c1)"
proof -
  have mpos: "0 \<le> m" using m eta64_pos by linarith
  have rpos: "0 \<le> r" using r(1) k(1) mpos by (smt (verit) mult_nonneg_nonneg)
  have cpos: "0 \<le> c" using c(1) k(2) by linarith
  have lo: "(k * m) * c0 \<le> r * c"
    using r(1) c(1) rpos k(2) by (rule mult_mono)
  have hi: "r * c \<le> U * c1"
    using r(2) c(2) rpos cpos by (intro mult_mono) simp_all
  have "1 * m \<le> (k * c0) * m" using k(3) mpos by (rule mult_right_mono)
  then have "m \<le> (k * m) * c0" by (simp add: mult_ac)
  with m lo have "eta64 \<le> r * c" by linarith
  moreover have "r * c \<le> pow2 1023" using hi U by linarith
  ultimately obtain y where y: "fl (r * c) = Num y" "r * c \<le> 2 * y" "2 * y \<le> 3 * (r * c)"
    using fl_half by blast
  have "k * c0 * m = (k * m) * c0" by (simp add: mult_ac)
  with lo hi y(2,3) have "k * c0 * m \<le> 2 * y" "2 * y \<le> 3 * (U * c1)" by linarith+
  with y(1) show ?thesis by simp
qed

lemma literal_095: "\<exists>g. fl 0.95 = Num g \<and> 94 / 100 \<le> g \<and> g \<le> 96 / 100"
proof -
  have "\<exists>y. fl 0.95 = Num y \<and> 0.95 * (1 - eps64) \<le> y \<and> y \<le> 0.95 * (1 + eps64) \<and>
      999 * 0.95 \<le> 1000 * y \<and> 1000 * y \<le> 1001 * 0.95"
    by (rule fl_normal_loose) (simp_all add: pow2_def)
  then obtain y where "fl 0.95 = Num y" "999 * 0.95 \<le> 1000 * y" "1000 * y \<le> 1001 * 0.95"
    by blast
  then show ?thesis by (intro exI [of _ y]) simp
qed

lemma rate64_bounds:
  assumes f: "eta64 \<le> uvf" "uvf \<le> 3"
    and c: "4 / 100 \<le> c" "c \<le> 1001 / 1000"
    and q: "1 / 2 \<le> q" "q \<le> 1"
    and a: "8 / 10 \<le> a" "a \<le> 12 / 10"
  shows "\<exists>r. vitamin_d_rate64 (Num uvf) (Num c) (Num q) (Num a) = Num r \<and>
           4 * uvf \<le> r \<and> r \<le> 1000000"
proof -
  have big: "(10000000::real) \<le> pow2 1023" by (simp add: pow2_def)
  have fpos: "0 < uvf" using f(1) eta64_pos by linarith
  have "eta64 \<le> 21000 * uvf" "21000 * uvf \<le> pow2 1023"
    using f fpos big by linarith+
  from fl_half [OF this] obtain r1
    where r1: "f_mul (Num 21000) (Num uvf) = Num r1"
      and b1: "10500 * uvf \<le> r1" "r1 \<le> 94500"
    using f(2) by auto
  from fmul_step [OF f(1) b1 c, of ] big fpos obtain r2
    where r2: "f_mul (Num r1) (Num c) = Num r2"
      and b2: "210 * uvf \<le> r2" "r2 \<le> 141900"
    by auto
  have one: "(1::real) \<le> 1.0" "(1.0::real) \<le> 1" by simp_all
  from fmul_step [OF f(1) b2 one] big fpos obtain r3
    where r3: "f_mul (Num r2) (Num 1.0) = Num r3"
      and b3: "105 * uvf \<le> r3" "r3 \<le> 212850"
    by auto
  from literal_095 obtain g where g: "fl 0.95 = Num g" "94 / 100 \<le> g" "g \<le> 96 / 100"
    by blast
  from fmul_step [OF f(1) b3 g(2,3)] big fpos obtain r4
    where r4: "f_mul (Num r3) (Num g) = Num r4"
      and b4: "49 * uvf \<le> r4" "r4 \<le> 306504"
    by auto
  from fmul_step [OF f(1) b4 q] big fpos obtain r5
    where r5: "f_mul (Num r4) (Num q) = Num r5"
      and b5: "12 * uvf \<le> r5" "r5 \<le> 459756"
    by auto
  from fmul_step [OF f(1) b5 a] big fpos obtain r6
    where r6: "f_mul (Num r5) (Num a) = Num r6"
      and b6: "4 * uvf \<le> r6" "r6 \<le> 1000000"
    by auto
  have "vitamin_d_rate64 (Num uvf) (Num c) (Num q) (Num a) = Num r6"
    by (simp only: vitamin_d_rate64_def base_rate_def skin_type_factor_def age_factor_def
        r1 r2 r3 g(1) r4 r5 r6)
  with b6 show ?thesis by blast
qed

lemma uv64_positive:
  assumes d: "is_double u" and upos: "0 < u" and hi: "u \<le> 20"
  shows "\<exists>f. uv_factor64 (Num u) = Inr (Num f) \<and> eta64 \<le> f \<and> f \<le> 3 \<and>
           (1 / pow2 1000 \<le> u \<longrightarrow> u \<le> 11 * f)"
proof -
  have big: "(60::real) \<le> pow2 1023" by (simp add: pow2_def)
  from double_grid [OF d] obtain K :: int where K: "u = of_int K / pow2 1074" by blast
  have ueta: "eta64 \<le> u" using K upos by (rule grid_pos_ge)
  have "u * 3 = of_int (K * 3) / pow2 1074" by (simp add: K)
  moreover have "0 \<le> u * 3" "u * 3 \<le> pow2 1023" using upos hi big by linarith+
  ultimately obtain a
    where a: "fl (u * 3) = Num a" "999 * (u * 3) \<le> 1000 * a" "1000 * a \<le> 1001 * (u * 3)"
    using fl_grid by blast
  have u0: "0 \<le> u" using upos by simp
  from sum_4_rounded [OF u0 hi] obtain b
    where b: "fl (4 + u) = Num b" "999 * (4 + u) \<le> 1000 * b" "1000 * b \<le> 1001 * (4 + u)"
    by blast
  have bpos: "0 < b" using b(2) upos by simp
  have b25: "b \<le> 25" using b(3) hi by simp
  define q where "q = a / b"
  have "10 * a \<le> 26 * b" using a(3) b(2) hi upos by simp
  then have "a \<le> 26 / 10 * b" by simp
  then have qhi: "q \<le> 26 / 10" unfolding q_def using bpos by (simp add: pos_divide_le_eq)
  have "u / 10 * b \<le> u / 10 * 25"
    using b25 upos by (intro mult_left_mono) simp_all
  moreover have "u / 10 * 25 \<le> a" using a(2) upos by simp
  ultimately have "u / 10 * b \<le> a" by (rule order_trans)
  then have qlo: "u / 10 \<le> q" unfolding q_def using bpos by (simp add: pos_le_divide_eq)
  have half: "eta64 / 2 < q"
  proof (cases "u \<le> 1 / 20")
    case True
    then have "b \<le> 41 / 10" using b(3) by simp
    then have "7 / 10 * u * b \<le> 7 / 10 * u * (41 / 10)"
      using upos by (intro mult_left_mono) simp_all
    moreover have "7 / 10 * u * (41 / 10) \<le> a" using a(2) upos by simp
    ultimately have "7 / 10 * u * b \<le> a" by (rule order_trans)
    then have "7 / 10 * u \<le> q" unfolding q_def using bpos by (simp add: pos_le_divide_eq)
    with ueta eta64_pos show ?thesis by linarith
  next
    case False
    moreover have "eta64 / 2 < 1 / 200" by (simp add: eta64_def pow2_def)
    ultimately show ?thesis using qlo by linarith
  qed
  have "q \<le> pow2 1023" using qhi big by linarith
  from fl_above_half_eta [OF half this] obtain f
    where f: "fl q = Num f" "eta64 \<le> f" "1000 * f \<le> 1001 * q + 1" by blast
  have f3: "f \<le> 3" using f(3) qhi by linarith
  have acc: "u \<le> 11 * f" if "1 / pow2 1000 \<le> u"
  proof -
    define A where "A = 1 / pow2 1000"
    define P where "P = 1 / pow2 1022"
    have "10 * P \<le> A" by (simp add: A_def P_def pow2_def)
    moreover have "A \<le> u" using that by (simp add: A_def)
    ultimately have "P \<le> q" using qlo by linarith
    then have "1 / pow2 1022 \<le> q" by (simp add: P_def)
    from fl_normal_loose [OF this \<open>q \<le> pow2 1023\<close>] f(1)
    have "999 * q \<le> 1000 * f" by auto
    with qlo upos show ?thesis by linarith
  qed
  have "uv_factor64 (Num u) = Inr (Num f)"
    unfolding uv64_formula a(1) b(1) f_div_Num [OF bpos [THEN less_imp_neq, THEN not_sym]]
      q_def [symmetric] f(1) ..
  with f(2) f3 acc show ?thesis by blast
qed

lemma literal_bounds:
  assumes "5 / 100 \<le> v" and "v \<le> (1::real)"
  shows "\<exists>c. fl v = Num c \<and> 4 / 100 \<le> c \<and> c \<le> 1001 / 1000"
proof -
  have "1 / pow2 1022 \<le> (5::real) / 100" "(1::real) \<le> pow2 1023"
    by (simp_all add: pow2_def)
  with assms have "1 / pow2 1022 \<le> v" "v \<le> pow2 1023" by linarith+
  from fl_normal_loose [OF this] obtain c
    where "fl v = Num c" "999 * v \<le> 1000 * c" "1000 * c \<le> 1001 * v" by blast
  with assms show ?thesis by (intro exI [of _ c]) simp
qed

lemma clothing64_bounds:
  assumes "cf \<in> {fl 1.0, fl 0.8, fl 0.4, fl 0.15, fl 0.05}"
  shows "\<exists>c. cf = Num c \<and> 4 / 100 \<le> c \<and> c \<le> 1001 / 1000"
proof -
  have "\<exists>c. fl v = Num c \<and> 4 / 100 \<le> c \<and> c \<le> 1001 / 1000"
    if "v \<in> {1.0, 0.8, 0.4, 0.15, 0.05}" for v :: real
  proof -
    from that have "5 / 100 \<le> v" "v \<le> 1" by auto
    then show ?thesis by (rule literal_bounds)
  qed
  with assms show ?thesis by auto
qed

lemma lit_1: "fl (1.0) = Num (1)"
proof -
  have "fl (1.0) = Num (of_int 4503599627370496 * pow2 1022 / pow2 1074)"
    by (rule fl_eval) (simp_all add: pow2_def round_half_even_def)
  also have "of_int 4503599627370496 * pow2 1022 / pow2 1074 = (1 :: real)"
    by (simp add: pow2_def)
  finally show ?thesis .
qed

lemma nine_dbl: "fl (9) = Num (9)"
proof -
  have "fl (9) = Num (of_int 5066549580791808 * pow2 1025 / pow2 1074)"
    by (rule fl_eval) (simp_all add: pow2_def round_half_even_def)
  also have "of_int 5066549580791808 * pow2 1025 / pow2 1074 = (9 :: real)"
    by (simp add: pow2_def)
  finally show ?thesis .
qed

lemma time64_total:
  assumes "0 < r"
  shows "\<exists>t. time_to_15000_minutes64 (Num r) = Inr t"
  using time64_formula [OF assms] by blast

lemma burn64_total:
  assumes "0 < u"
  shows "\<exists>b s. burn_times64 (Num u) = Inr (b, s)"
  using burn64_formula [OF assms] by blast

lemma quality_factor_bounds: "1 / 2 \<le> quality_factor h \<and> quality_factor h \<le> 1"
  by (simp add: quality_factor_def)

lemma pipeline64_positive:
  assumes d: "is_double u" and upos: "0 < u" and hi: "u \<le> 20"
    and cf: "cf \<in> {fl 1.0, fl 0.8, fl 0.4, fl 0.15, fl 0.05}"
    and a: "0.8 \<le> a" "a \<le> 1.2"
  shows "\<exists>res r. pipeline64 (Num u) cf (Num (quality_factor h)) (Num a) = Inr res \<and>
           r64_vitamin_d_rate res = Num r \<and> 0 < r \<and>
           (1 / pow2 990 \<le> u \<longrightarrow> (\<exists>t. r64_time_to_15000_minutes res = Num t))"
proof -
  from uv64_positive [OF d upos hi] obtain f
    where f: "uv_factor64 (Num u) = Inr (Num f)" "eta64 \<le> f" "f \<le> 3"
      and fu: "1 / pow2 1000 \<le> u \<longrightarrow> u \<le> 11 * f" by blast
  from clothing64_bounds [OF cf] obtain c
    where c: "cf = Num c" "4 / 100 \<le> c" "c \<le> 1001 / 1000" by blast
  have q: "1 / 2 \<le> quality_factor h" "quality_factor h \<le> 1"
    using quality_factor_bounds by simp_all
  have a': "8 / 10 \<le> a" "a \<le> 12 / 10" using a by simp_all
  from rate64_bounds [OF f(2,3) c(2,3) q a'] obtain r
    where r: "vitamin_d_rate64 (Num f) (Num c) (Num (quality_factor h)) (Num a) = Num r"
      "4 * f \<le> r" "r \<le> 1000000" by blast
  have rpos: "0 < r" using r(2) f(2) eta64_pos by linarith
  from time64_total [OF rpos] obtain t
    where t: "time_to_15000_minutes64 (Num r) = Inr t" by blast
  from burn64_total [OF upos] obtain b s
    where b: "burn_times64 (Num u) = Inr (b, s)" by blast
  have p: "pipeline64 (Num u) cf (Num (quality_factor h)) (Num a) =
      Inr \<lparr> r64_uv_factor = Num f, r64_vitamin_d_rate = Num r,
            r64_time_to_15000_minutes = t, r64_burn_time_minutes = b,
            r64_safety_warning_minutes = s \<rparr>"
    by (simp add: pipeline64_def f(1) c(1) r(1) t b)
  have fin: "\<exists>y. t = Num y" if "1 / pow2 990 \<le> u"
  proof -
    define A where "A = 1 / pow2 1000"
    define A' where "A' = 1 / pow2 990"
    have n: "A \<le> A'" "11 * A \<le> 4 * A'" "0 < A"
      by (simp_all add: A_def A'_def pow2_def)
    have u': "A' \<le> u" using that by (simp add: A'_def)
    with n have "1 / pow2 1000 \<le> u" by (simp add: A_def)
    with fu have "u \<le> 11 * f" by simp
    with r(2) u' n have "A \<le> r" by linarith
    then have "1 / pow2 1000 \<le> r" by (simp add: A_def)
    moreover have "(1000000::real) \<le> pow2 1000" by (simp add: pow2_def)
    with r(3) have "r \<le> pow2 1000" by linarith
    ultimately obtain y where "time_to_15000_minutes64 (Num r) = Inr (Num y)"
      using time64_accurate by blast
    with t show ?thesis by auto
  qed
  show ?thesis
    unfolding p using rpos fin by simp
qed

lemma pipeline64_zero:
  assumes cf: "cf \<in> {fl 1.0, fl 0.8, fl 0.4, fl 0.15, fl 0.05}"
  shows "pipeline64 (Num 0) cf (Num q) (Num a) =
     Inr \<lparr> r64_uv_factor = Num 0, r64_vitamin_d_rate = Num 0,
           r64_time_to_15000_minutes = PInf, r64_burn_time_minutes = PInf,
           r64_safety_warning_minutes = PInf \<rparr>"
proof -
  from clothing64_bounds [OF cf] obtain c where c: "cf = Num c" by blast
  from literal_095 obtain g where "fl 0.95 = Num g" by blast
  then have g: "fl (19 / 20) = Num g" by simp
  have "vitamin_d_rate64 (Num 0) (Num c) (Num q) (Num a) = Num 0"
    by (simp add: vitamin_d_rate64_def age_factor_def g fl_0)
  then show ?thesis
    by (simp add: pipeline64_def uv64_zero c time_to_15000_minutes64_def burn_times64_def
        Let_def)
qed

subsection \<open>The claims\<close>


text \<open>
  C2 (as stated). The claim has the UV factor strictly increasing on \<open>[0, 20]\<close>. The
  double \<open>1.1\<close> and the next double above it are both in the interval, and line 51
  gives the larger of the two the smaller UV factor.
\<close>

theorem uv_factor_not_increasing_counterexample:
  "is_double (2476979795053773 / pow2 51) \<and> is_double (4953959590107547 / pow2 52) \<and>
   (0::real) \<le> 2476979795053773 / pow2 51 \<and> (2476979795053773 / pow2 51 :: real) < 4953959590107547 / pow2 52 \<and>
   (4953959590107547 / pow2 52 :: real) \<le> 20 \<and>
   uv_factor64 (Num (2476979795053773 / pow2 51)) = Inr (Num (2914093876533851 / pow2 52)) \<and>
   uv_factor64 (Num (4953959590107547 / pow2 52)) = Inr (Num (5828187753067701 / pow2 53)) \<and>
   \<not> (2914093876533851 / pow2 52 :: real) < 5828187753067701 / pow2 53"
proof -
  have "(2476979795053773 / pow2 51 :: real) < 4953959590107547 / pow2 52" "(4953959590107547 / pow2 52 :: real) \<le> 20"
    "\<not> (2914093876533851 / pow2 52 :: real) < 5828187753067701 / pow2 53" "(0::real) \<le> 2476979795053773 / pow2 51"
    by (simp_all add: pow2_def)
  then show ?thesis
    using uv_lo_value uv_hi_value uv_lo_dbl uv_hi_dbl
    by (simp only: is_double_def simp_thms)
qed

text \<open>
  C2 (amended). The UV factor is the binary64 value of
  \<open>(uv_index \<times> 3.0) / (4.0 + uv_index)\<close>. For every UV index in \<open>[0, 20]\<close> it is a
  finite number in \<open>[0, 3)\<close>, and it is exactly \<open>0\<close> at UV index \<open>0\<close>. The exact quotient
  is strictly increasing on the interval, and for a UV index of at least \<open>2 ^ (-1000)\<close>
  the computed value lies within a relative error of \<open>2 ^ (-51)\<close> of it; the computed
  value itself is not claimed to increase.
\<close>

theorem uv_factor_binary64:
  "uv_factor64 (Num u) = f_div (fl (u * 3.0)) (fl (4.0 + u)) \<and>
   (0 \<le> u \<and> u \<le> 20 \<longrightarrow>
      (\<exists>f. uv_factor64 (Num u) = Inr (Num f) \<and> 0 \<le> f \<and> f < 3.0)) \<and>
   (1 / pow2 1000 \<le> u \<and> u \<le> 20 \<longrightarrow>
      (\<exists>f. uv_factor64 (Num u) = Inr (Num f) \<and>
         \<bar>f - (u * 3.0) / (4.0 + u)\<bar> \<le> (u * 3.0) / (4.0 + u) / pow2 51)) \<and>
   (0 \<le> u \<and> u < v \<and> v \<le> 20 \<longrightarrow> (u * 3.0) / (4.0 + u) < (v * 3.0) / (4.0 + v)) \<and>
   uv_factor64 (Num 0) = Inr (Num 0)"
proof (intro conjI impI)
  show "uv_factor64 (Num u) = f_div (fl (u * 3.0)) (fl (4.0 + u))"
    by (simp add: uv_factor64_def)
  show "\<exists>f. uv_factor64 (Num u) = Inr (Num f) \<and> 0 \<le> f \<and> f < 3.0" if "0 \<le> u \<and> u \<le> 20"
    using that uv64_range [of u] by simp
  show "\<exists>f. uv_factor64 (Num u) = Inr (Num f) \<and>
         \<bar>f - (u * 3.0) / (4.0 + u)\<bar> \<le> (u * 3.0) / (4.0 + u) / pow2 51"
    if "1 / pow2 1000 \<le> u \<and> u \<le> 20"
    using that uv64_accurate [of u] by simp
  show "(u * 3.0) / (4.0 + u) < (v * 3.0) / (4.0 + v)" if "0 \<le> u \<and> u < v \<and> v \<le> 20"
    using that exact_quotient_increasing [of u v] by simp
  show "uv_factor64 (Num 0) = Inr (Num 0)" by (rule uv64_zero)
qed

theorem uv_factor_binary64_witness:
  "((0::real) \<le> 9 \<and> (9::real) \<le> 20) \<and>
   (\<exists>f. uv_factor64 (Num 9) = Inr (Num f) \<and> 0 \<le> f \<and> f < 3.0) \<and>
   (1 / pow2 1000 \<le> (9::real) \<and> (9::real) \<le> 20) \<and>
   (\<exists>f. uv_factor64 (Num 9) = Inr (Num f) \<and>
      \<bar>f - (9 * 3.0) / (4.0 + 9)\<bar> \<le> (9 * 3.0) / (4.0 + 9) / pow2 51) \<and>
   ((0::real) \<le> 9 \<and> (9::real) < 10 \<and> (10::real) \<le> 20) \<and>
   ((9::real) * 3.0) / (4.0 + 9) < (10 * 3.0) / (4.0 + 10)"
proof -
  have h1: "(0::real) \<le> 9 \<and> (9::real) \<le> 20" by simp
  have h2: "1 / pow2 1000 \<le> (9::real) \<and> (9::real) \<le> 20" by (simp add: pow2_def)
  have h3: "(0::real) \<le> 9 \<and> (9::real) < 10 \<and> (10::real) \<le> 20" by simp
  note t = uv_factor_binary64 [of 9 10]
  note c1 = mp [OF conjunct1 [OF conjunct2 [OF t]] h1]
  note c2 = mp [OF conjunct1 [OF conjunct2 [OF conjunct2 [OF t]]] h2]
  note c3 = mp [OF conjunct1 [OF conjunct2 [OF conjunct2 [OF conjunct2 [OF t]]]] h3]
  show ?thesis by (intro conjI h1 c1 h2 c2 h3 c3)
qed

text \<open>
  C3 (as stated). The claim has the time equal to \<open>(15000 / rate) \<times> 60\<close> for every
  positive rate. At the positive rate \<open>5985 / 2 ^ 1019\<close>, which the script reaches at
  UV index \<open>2 ^ (-1020)\<close>, the product exceeds the largest double and lines 58 and 59
  give positive infinity.
\<close>

theorem time_to_target_overflow_counterexample:
  "(0::real) < 5985 / pow2 1019 \<and>
   time_to_15000_minutes64 (Num (5985 / pow2 1019)) = Inr PInf \<and>
   time_to_15000_minutes64 (Num (5985 / pow2 1019)) \<noteq>
     Inr (Num ((15000 / (5985 / pow2 1019)) * 60))"
  using tiny_time by simp

text \<open>
  C3 (amended). For a positive rate the time is the binary64 value of
  \<open>(15000 / rate) \<times> 60\<close>: for a rate between \<open>2 ^ (-1000)\<close> and \<open>2 ^ 1000\<close> a finite number
  within a relative error of \<open>2 ^ (-51)\<close> of the exact product, and for every positive
  rate either a finite number that is not negative or positive infinity. For a rate of
  zero it is positive infinity. In no case is it an error.
\<close>

theorem time_to_target_binary64:
  "(0 < r \<longrightarrow>
      time_to_15000_minutes64 (Num r) = Inr (f_mul (fl (15000 / r)) (Num 60))) \<and>
   (1 / pow2 1000 \<le> r \<and> r \<le> pow2 1000 \<longrightarrow>
      (\<exists>t. time_to_15000_minutes64 (Num r) = Inr (Num t) \<and>
         \<bar>t - (15000 / r) * 60\<bar> \<le> (15000 / r) * 60 / pow2 51)) \<and>
   (0 < r \<longrightarrow>
      (\<exists>t. time_to_15000_minutes64 (Num r) = Inr t \<and>
         (t = PInf \<or> (\<exists>y. t = Num y \<and> 0 \<le> y)))) \<and>
   time_to_15000_minutes64 (Num 0) = Inr PInf"
proof (intro conjI impI)
  show "time_to_15000_minutes64 (Num r) = Inr (f_mul (fl (15000 / r)) (Num 60))" if "0 < r"
    using that by (rule time64_formula)
  show "\<exists>t. time_to_15000_minutes64 (Num r) = Inr (Num t) \<and>
         \<bar>t - (15000 / r) * 60\<bar> \<le> (15000 / r) * 60 / pow2 51"
    if "1 / pow2 1000 \<le> r \<and> r \<le> pow2 1000"
    using that time64_accurate by blast
  show "\<exists>t. time_to_15000_minutes64 (Num r) = Inr t \<and>
         (t = PInf \<or> (\<exists>y. t = Num y \<and> 0 \<le> y))" if "0 < r"
  proof -
    have "0 \<le> 15000 / r" using that by simp
    then have "fl (15000 / r) = PInf \<or> (\<exists>y. fl (15000 / r) = Num y \<and> 0 \<le> y)"
      by (rule fl_nonneg_cases)
    then have "f_mul (fl (15000 / r)) (Num 60) = PInf \<or>
        (\<exists>y. f_mul (fl (15000 / r)) (Num 60) = Num y \<and> 0 \<le> y)"
      by (rule f_mul_nonneg_cases) simp
    then show ?thesis unfolding time64_formula [OF that] by blast
  qed
  show "time_to_15000_minutes64 (Num 0) = Inr PInf"
    by (simp add: time_to_15000_minutes64_def)
qed

theorem time_to_target_binary64_witness:
  "(0::real) < 1 \<and>
   time_to_15000_minutes64 (Num 1) = Inr (f_mul (fl (15000 / 1)) (Num 60)) \<and>
   (1 / pow2 1000 \<le> (1::real) \<and> (1::real) \<le> pow2 1000) \<and>
   (\<exists>t. time_to_15000_minutes64 (Num 1) = Inr (Num t) \<and>
      \<bar>t - (15000 / 1) * 60\<bar> \<le> (15000 / 1) * 60 / pow2 51) \<and>
   (\<exists>t. time_to_15000_minutes64 (Num 1) = Inr t \<and>
      (t = PInf \<or> (\<exists>y. t = Num y \<and> 0 \<le> y)))"
proof -
  have h1: "(0::real) < 1" by simp
  have h2: "1 / pow2 1000 \<le> (1::real) \<and> (1::real) \<le> pow2 1000" by (simp add: pow2_def)
  note t = time_to_target_binary64 [of 1]
  note c1 = mp [OF conjunct1 [OF t] h1]
  note c2 = mp [OF conjunct1 [OF conjunct2 [OF t]] h2]
  note c3 = mp [OF conjunct1 [OF conjunct2 [OF conjunct2 [OF t]]] h1]
  show ?thesis by (intro conjI h1 c1 h2 c2 c3)
qed

text \<open>
  C4 (as stated). The claim has the burn time equal to \<open>425 / uv_index\<close> and the safety
  threshold equal to \<open>0.8\<close> times it for every positive UV index. At UV index
  \<open>2 ^ (-1020)\<close> the quotient exceeds the largest double and line 65 gives positive
  infinity, and so does line 66.
\<close>

theorem burn_times_overflow_counterexample:
  "is_double (1 / pow2 1020) \<and> (0::real) < 1 / pow2 1020 \<and> (1::real) / pow2 1020 \<le> 20 \<and>
   burn_times64 (Num (1 / pow2 1020)) = Inr (PInf, PInf) \<and>
   burn_times64 (Num (1 / pow2 1020)) \<noteq>
     Inr (Num (425 / (1 / pow2 1020)), Num (425 / (1 / pow2 1020) * 0.8))"
proof -
  have "(1::real) / pow2 1020 \<le> 20" using pow2_ge_1 [of 1020] by (simp add: field_simps)
  moreover have "is_double (1 / pow2 1020)" unfolding is_double_def by (rule tiny_dbl)
  ultimately show ?thesis using tiny_burns by simp
qed

text \<open>
  C4 (amended). For a positive UV index the burn time is the binary64 value of
  \<open>425 / uv_index\<close> and the safety threshold the binary64 value of the burn time times
  \<open>0.8\<close>: for a UV index between \<open>2 ^ (-1000)\<close> and \<open>2 ^ 1000\<close> both are finite, the burn
  time within a relative error of \<open>2 ^ (-53)\<close> and the threshold within \<open>2 ^ (-51)\<close> of
  the exact value; where the quotient overflows both are positive infinity. At UV
  index \<open>0\<close> both are positive infinity.
\<close>

theorem burn_times_binary64:
  "(0 < u \<longrightarrow>
      burn_times64 (Num u) = Inr (fl (425 / u), f_mul (fl (425 / u)) (fl 0.8))) \<and>
   (1 / pow2 1000 \<le> u \<and> u \<le> pow2 1000 \<longrightarrow>
      (\<exists>b s. burn_times64 (Num u) = Inr (Num b, Num s) \<and>
         \<bar>b - 425 / u\<bar> \<le> 425 / u / pow2 53 \<and>
         \<bar>s - 425 / u * 0.8\<bar> \<le> 425 / u * 0.8 / pow2 51)) \<and>
   (0 < u \<and> fl (425 / u) = PInf \<longrightarrow> burn_times64 (Num u) = Inr (PInf, PInf)) \<and>
   burn_times64 (Num 0) = Inr (PInf, PInf)"
proof (intro conjI impI)
  show "burn_times64 (Num u) = Inr (fl (425 / u), f_mul (fl (425 / u)) (fl 0.8))" if "0 < u"
    using that by (rule burn64_formula)
  show "\<exists>b s. burn_times64 (Num u) = Inr (Num b, Num s) \<and>
         \<bar>b - 425 / u\<bar> \<le> 425 / u / pow2 53 \<and>
         \<bar>s - 425 / u * 0.8\<bar> \<le> 425 / u * 0.8 / pow2 51"
    if "1 / pow2 1000 \<le> u \<and> u \<le> pow2 1000"
    using that burn64_accurate by blast
  show "burn_times64 (Num u) = Inr (PInf, PInf)" if "0 < u \<and> fl (425 / u) = PInf"
    using that burn64_overflow by blast
  show "burn_times64 (Num 0) = Inr (PInf, PInf)"
    by (simp add: burn_times64_def)
qed

theorem burn_times_binary64_witness:
  "(0::real) < 9 \<and>
   burn_times64 (Num 9) = Inr (fl (425 / 9), f_mul (fl (425 / 9)) (fl 0.8)) \<and>
   (1 / pow2 1000 \<le> (9::real) \<and> (9::real) \<le> pow2 1000) \<and>
   (\<exists>b s. burn_times64 (Num 9) = Inr (Num b, Num s) \<and>
      \<bar>b - 425 / 9\<bar> \<le> 425 / 9 / pow2 53 \<and>
      \<bar>s - 425 / 9 * 0.8\<bar> \<le> 425 / 9 * 0.8 / pow2 51) \<and>
   ((0::real) < 1 / pow2 1020 \<and> fl (425 / (1 / pow2 1020)) = PInf) \<and>
   burn_times64 (Num (1 / pow2 1020)) = Inr (PInf, PInf)"
proof -
  have h1: "(0::real) < 9" by simp
  have h2: "1 / pow2 1000 \<le> (9::real) \<and> (9::real) \<le> pow2 1000" by (simp add: pow2_def)
  have h3: "(0::real) < 1 / pow2 1020 \<and> fl (425 / (1 / pow2 1020)) = PInf"
    using tiny_burn by simp
  note t = burn_times_binary64 [of 9]
  note t' = burn_times_binary64 [of "1 / pow2 1020"]
  note c1 = mp [OF conjunct1 [OF t] h1]
  note c2 = mp [OF conjunct1 [OF conjunct2 [OF t]] h2]
  note c3 = mp [OF conjunct1 [OF conjunct2 [OF conjunct2 [OF t']]] h3]
  show ?thesis by (intro conjI h1 c1 h2 c2 h3 c3)
qed

text \<open>
  C5. The notice carries a dose exactly in the months 11, 12, 1 and 2. There the dose is
  4000 IU/day for a BMI of at least 30, 3000 for a BMI from 25 up to but excluding 30,
  and 2000 for a BMI below 25, so that 25 and 30 themselves fall into the higher tier.
  In every other month the notice is the informational text, which contains no digit.
\<close>

theorem supplement_tiers:
  "((\<exists>s d. supplement_notice month b = Warning s d) \<longleftrightarrow> month \<in> {11, 12, 1, 2}) \<and>
   (month \<in> {11, 12, 1, 2} \<longrightarrow>
      supplement_notice month b = Warning (format_1f (Fin b)) (supplement_rec b)) \<and>
   (b \<ge> 30 \<longrightarrow> supplement_rec b = 4000) \<and>
   (25 \<le> b \<and> b < 30 \<longrightarrow> supplement_rec b = 3000) \<and>
   (b < 25 \<longrightarrow> supplement_rec b = 2000) \<and>
   supplement_rec 25 = 3000 \<and> supplement_rec 30 = 4000 \<and>
   (month \<notin> {11, 12, 1, 2} \<longrightarrow> supplement_notice month b = Info info_text) \<and>
   set info_text \<inter> set ''0123456789'' = {}"
  by (simp add: supplement_notice_def supplement_rec_def info_text_def)

theorem supplement_tiers_witness:
  "(1::int) \<in> {11, 12, 1, 2} \<and> (25::real) \<le> 27.5 \<and> (27.5::real) < 30 \<and>
   supplement_notice 1 27.5 = Warning ''27.5'' 3000 \<and>
   (7::int) \<notin> {11, 12, 1, 2} \<and> supplement_notice 7 27.5 = Info info_text \<and>
   (30::real) \<le> 31 \<and> supplement_rec 31 = 4000 \<and>
   (24::real) < 25 \<and> supplement_rec 24 = 2000"
  using supplement_tiers [of 1 "27.5"] supplement_tiers [of 7 "27.5"]
    supplement_tiers [of 1 31] supplement_tiers [of 1 24]
  by (simp add: round_half_even_def digits.simps)

text \<open>
  C8. The quality factor is \<open>1.0\<close> for the hours 10, 11, 12, 13 and 14, that is for
  \<open>10 \<le> current_hour < 15\<close>, and \<open>0.5\<close> for every other hour; it takes no other value.
  This holds for every integer, the hours \<open>0\<close> to \<open>23\<close> among them.
\<close>

theorem quality_factor_step:
  "(h \<in> {10, 11, 12, 13, 14} \<longrightarrow> quality_factor h = 1.0) \<and>
   (h \<notin> {10, 11, 12, 13, 14} \<longrightarrow> quality_factor h = 0.5) \<and>
   (10 \<le> h \<and> h < 15 \<longrightarrow> quality_factor h = 1.0) \<and>
   quality_factor h \<in> {1.0, 0.5}"
  by (auto simp: quality_factor_def)

theorem quality_factor_step_witness:
  "(12::int) \<in> {10, 11, 12, 13, 14} \<and> quality_factor 12 = 1.0 \<and>
   (15::int) \<notin> {10, 11, 12, 13, 14} \<and> quality_factor 15 = 0.5 \<and>
   (10::int) \<le> 10 \<and> (10::int) < 15 \<and> quality_factor 10 = 1.0"
  using quality_factor_step [of 12] quality_factor_step [of 15] quality_factor_step [of 10]
  by simp

text \<open>
  C6 (as stated). For UV index 9.0, clothing factor 1.0, quality factor 1.0 and
  adaptation factor 0.8 the claim gives a rate of about 33,149.2 IU/hour and a time to
  target of about 27.1 minutes. The run gives the rate \<open>430920 / 13\<close>, more than 0.05
  away from 33,149.2, and the time \<open>32500 / 1197\<close>, more than 0.05 away from 27.1 and
  printed as 27.2.
\<close>

theorem scenario_spec_figures_counterexample:
  "pipeline 9 1 1 0.8 =
     Inr \<lparr> r_uv_factor = 27 / 13, r_vitamin_d_rate = 430920 / 13,
           r_time_to_15000_minutes = Fin (32500 / 1197),
           r_burn_time_minutes = Fin (425 / 9),
           r_safety_warning_minutes = Fin (340 / 9) \<rparr> \<and>
   \<not> \<bar>430920 / 13 - 33149.2\<bar> \<le> (0.05::real) \<and>
   \<not> \<bar>32500 / 1197 - 27.1\<bar> \<le> (0.05::real) \<and>
   time_line (Fin (32500 / 1197)) \<noteq> ''Approximately 27.1 minutes of exposure.''"
  using scenario_value by (simp add: time_line_def round_half_even_def digits.simps)

text \<open>
  C6 (amended). For the same inputs the run gives the UV factor \<open>27 / 13\<close>, about
  2.0769; the rate \<open>430920 / 13\<close>, about 33,147.7 IU/hour; the time to target
  \<open>32500 / 1197\<close> minutes, printed as 27.2; the burn time \<open>425 / 9\<close>, printed as 47.2;
  and the safety warning threshold \<open>340 / 9\<close>, printed as 37.8.
\<close>

theorem scenario_figures:
  "pipeline 9 1 1 0.8 =
     Inr \<lparr> r_uv_factor = 27 / 13, r_vitamin_d_rate = 430920 / 13,
           r_time_to_15000_minutes = Fin (32500 / 1197),
           r_burn_time_minutes = Fin (425 / 9),
           r_safety_warning_minutes = Fin (340 / 9) \<rparr> \<and>
   \<bar>27 / 13 - 2.0769\<bar> \<le> (0.00005::real) \<and>
   \<bar>430920 / 13 - 33147.7\<bar> \<le> (0.05::real) \<and>
   \<bar>32500 / 1197 - 27.2\<bar> \<le> (0.05::real) \<and>
   \<bar>425 / 9 - 47.2\<bar> \<le> (0.05::real) \<and>
   \<bar>340 / 9 - 37.8\<bar> \<le> (0.05::real) \<and>
   time_line (Fin (32500 / 1197)) = ''Approximately 27.2 minutes of exposure.'' \<and>
   burn_line (Fin (425 / 9)) = ''Technical burn time (1 MED): 47.2 minutes.'' \<and>
   safety_line (Fin (340 / 9)) =
     ''Safety warning threshold (80% of burn time): 37.8 minutes.''"
  using scenario_value
  by (simp add: time_line_def burn_line_def safety_line_def round_half_even_def digits.simps)

text \<open>
  C7 (as stated). The claim wants positive infinity shown as a sentinel such as
  "not achievable" and never as a bare \<open>inf\<close>. At UV index 0 the three times are
  positive infinity and the three result lines print the bare text \<open>inf\<close>.
\<close>

theorem infinity_rendering_counterexample:
  "calculator \<lparr> uv_index = 0, adaptation_factor = 0.8,
                selected_clothing = ''Nude (100%)'',
                current_hour = 12, current_month = 7 \<rparr> =
     Inr \<lparr> r_uv_factor = 0, r_vitamin_d_rate = 0,
           r_time_to_15000_minutes = PosInf,
           r_burn_time_minutes = PosInf,
           r_safety_warning_minutes = PosInf \<rparr> \<and>
   time_line PosInf = ''Approximately inf minutes of exposure.'' \<and>
   burn_line PosInf = ''Technical burn time (1 MED): inf minutes.'' \<and>
   safety_line PosInf = ''Safety warning threshold (80% of burn time): inf minutes.''"
  by (simp add: calculator_def clothing_factor_def clothing_options_def quality_factor_def
      pipeline_ok vitamin_d_rate_def time_to_15000_minutes_def burn_time_minutes_def
      safety_warning_minutes_def burn_times_def time_line_def burn_line_def safety_line_def)

text \<open>
  C7 (amended). A time that is positive infinity goes through the same one-decimal
  format as a finite one and is printed as \<open>inf\<close> inside the usual sentence; the
  program has no other wording for it. The text \<open>inf\<close> differs from the rendering of
  every finite value. At UV index 0 the run returns and prints all three lines so.
\<close>

theorem infinity_rendering:
  "time_line PosInf = ''Approximately inf minutes of exposure.'' \<and>
   burn_line PosInf = ''Technical burn time (1 MED): inf minutes.'' \<and>
   safety_line PosInf = ''Safety warning threshold (80% of burn time): inf minutes.'' \<and>
   format_1f (Fin x) \<noteq> format_1f PosInf \<and>
   (\<exists>res. pipeline 0 cf qf af = Inr res \<and>
      time_line (r_time_to_15000_minutes res) = ''Approximately inf minutes of exposure.'' \<and>
      burn_line (r_burn_time_minutes res) = ''Technical burn time (1 MED): inf minutes.'' \<and>
      safety_line (r_safety_warning_minutes res) =
        ''Safety warning threshold (80% of burn time): inf minutes.'')"
proof -
  have "format_1f (Fin x) \<noteq> ''inf''"
    using finite_has_point [of x] by auto
  then show ?thesis
    by (simp add: time_line_def burn_line_def safety_line_def pipeline_ok
      vitamin_d_rate_def time_to_15000_minutes_def burn_time_minutes_def
      safety_warning_minutes_def burn_times_def)
qed

text \<open>
  C9 (as stated). The claim has the time to target finite for every positive UV index.
  At UV index \<open>2 ^ (-1020)\<close>, with the first clothing option, the quality factor of
  noon and the adaptation factor \<open>0.8\<close>, the rate is positive, the zero-rate branch is
  not taken, and the time is positive infinity all the same.
\<close>

theorem rate_positive_infinite_time_counterexample:
  "is_double (1 / pow2 1020) \<and> (0::real) < 1 / pow2 1020 \<and> (1::real) / pow2 1020 \<le> 20 \<and>
   pipeline64 (Num (1 / pow2 1020)) (fl 1.0) (Num (quality_factor 12)) (fl 0.8) =
     Inr \<lparr> r64_uv_factor = Num (3 / pow2 1022),
           r64_vitamin_d_rate = Num (5985 / pow2 1019),
           r64_time_to_15000_minutes = PInf,
           r64_burn_time_minutes = PInf,
           r64_safety_warning_minutes = PInf \<rparr> \<and>
   (0::real) < 5985 / pow2 1019"
proof -
  have q: "quality_factor 12 = 1" by (simp add: quality_factor_def)
  have "(1::real) / pow2 1020 \<le> 20" using pow2_ge_1 [of 1020] by (simp add: field_simps)
  moreover have "is_double (1 / pow2 1020)" unfolding is_double_def by (rule tiny_dbl)
  moreover have "(0::real) < 1 / pow2 1020" "(0::real) < 5985 / pow2 1019" by simp_all
  ultimately show ?thesis
    unfolding lit_1 lit_08 q using tiny_pipeline by simp
qed

text \<open>
  C9 (amended). For every double UV index in \<open>(0, 20]\<close>, a clothing factor among the
  doubles of 1.0, 0.8, 0.4, 0.15 and 0.05 and an adaptation factor in \<open>[0.8, 1.2]\<close>, at
  any hour, the run returns a strictly positive rate, so the zero-rate branch is not
  taken. The time to target is finite whenever the UV index is at least \<open>2 ^ (-990)\<close>.
  At UV index \<open>0\<close> the rate is zero and the time is positive infinity; so the rate is
  zero exactly when the UV index is.
\<close>

theorem rate_positive_binary64:
  "(is_double u \<and> 0 < u \<and> u \<le> 20 \<and> cf \<in> {fl 1.0, fl 0.8, fl 0.4, fl 0.15, fl 0.05} \<and>
    0.8 \<le> a \<and> a \<le> 1.2 \<longrightarrow>
      (\<exists>res r. pipeline64 (Num u) cf (Num (quality_factor h)) (Num a) = Inr res \<and>
         r64_vitamin_d_rate res = Num r \<and> 0 < r)) \<and>
   (is_double u \<and> 1 / pow2 990 \<le> u \<and> u \<le> 20 \<and>
    cf \<in> {fl 1.0, fl 0.8, fl 0.4, fl 0.15, fl 0.05} \<and> 0.8 \<le> a \<and> a \<le> 1.2 \<longrightarrow>
      (\<exists>res t. pipeline64 (Num u) cf (Num (quality_factor h)) (Num a) = Inr res \<and>
         r64_time_to_15000_minutes res = Num t)) \<and>
   (cf \<in> {fl 1.0, fl 0.8, fl 0.4, fl 0.15, fl 0.05} \<longrightarrow>
      (\<exists>res. pipeline64 (Num 0) cf (Num (quality_factor h)) (Num a) = Inr res \<and>
         r64_vitamin_d_rate res = Num 0 \<and> r64_time_to_15000_minutes res = PInf))"
proof (intro conjI impI)
  assume "is_double u \<and> 0 < u \<and> u \<le> 20 \<and> cf \<in> {fl 1.0, fl 0.8, fl 0.4, fl 0.15, fl 0.05} \<and>
    0.8 \<le> a \<and> a \<le> 1.2"
  then have "is_double u" "0 < u" "u \<le> 20" "cf \<in> {fl 1.0, fl 0.8, fl 0.4, fl 0.15, fl 0.05}"
    "0.8 \<le> a" "a \<le> 1.2" by blast+
  from pipeline64_positive [OF this, of h]
  show "\<exists>res r. pipeline64 (Num u) cf (Num (quality_factor h)) (Num a) = Inr res \<and>
         r64_vitamin_d_rate res = Num r \<and> 0 < r"
    by blast
next
  assume h: "is_double u \<and> 1 / pow2 990 \<le> u \<and> u \<le> 20 \<and>
    cf \<in> {fl 1.0, fl 0.8, fl 0.4, fl 0.15, fl 0.05} \<and> 0.8 \<le> a \<and> a \<le> 1.2"
  then have u: "1 / pow2 990 \<le> u" by blast
  then have "0 < u" using pow2_pos [of 990] by (smt (verit) divide_pos_pos)
  with h have "is_double u" "0 < u" "u \<le> 20" "cf \<in> {fl 1.0, fl 0.8, fl 0.4, fl 0.15, fl 0.05}"
    "0.8 \<le> a" "a \<le> 1.2" by blast+
  from pipeline64_positive [OF this, of h] u
  show "\<exists>res t. pipeline64 (Num u) cf (Num (quality_factor h)) (Num a) = Inr res \<and>
         r64_time_to_15000_minutes res = Num t"
    by blast
next
  assume "cf \<in> {fl 1.0, fl 0.8, fl 0.4, fl 0.15, fl 0.05}"
  from pipeline64_zero [OF this, of "quality_factor h" a]
  show "\<exists>res. pipeline64 (Num 0) cf (Num (quality_factor h)) (Num a) = Inr res \<and>
         r64_vitamin_d_rate res = Num 0 \<and> r64_time_to_15000_minutes res = PInf"
    by simp
qed

theorem rate_positive_binary64_witness:
  "(is_double 9 \<and> (0::real) < 9 \<and> (9::real) \<le> 20 \<and>
    fl 1.0 \<in> {fl 1.0, fl 0.8, fl 0.4, fl 0.15, fl 0.05} \<and>
    (0.8::real) \<le> 0.8 \<and> (0.8::real) \<le> 1.2) \<and>
   (\<exists>res r. pipeline64 (Num 9) (fl 1.0) (Num (quality_factor 12)) (Num 0.8) = Inr res \<and>
      r64_vitamin_d_rate res = Num r \<and> 0 < r) \<and>
   (is_double 9 \<and> 1 / pow2 990 \<le> (9::real) \<and> (9::real) \<le> 20 \<and>
    fl 1.0 \<in> {fl 1.0, fl 0.8, fl 0.4, fl 0.15, fl 0.05} \<and>
    (0.8::real) \<le> 0.8 \<and> (0.8::real) \<le> 1.2) \<and>
   (\<exists>res t. pipeline64 (Num 9) (fl 1.0) (Num (quality_factor 12)) (Num 0.8) = Inr res \<and>
      r64_time_to_15000_minutes res = Num t) \<and>
   (\<exists>res. pipeline64 (Num 0) (fl 1.0) (Num (quality_factor 12)) (Num 0.8) = Inr res \<and>
      r64_vitamin_d_rate res = Num 0 \<and> r64_time_to_15000_minutes res = PInf)"
proof -
  have d: "is_double 9" unfolding is_double_def by (rule nine_dbl)
  have m: "fl 1.0 \<in> {fl 1.0, fl 0.8, fl 0.4, fl 0.15, fl 0.05}" by (rule insertI1)
  have n: "(0::real) < 9" "(9::real) \<le> 20" "(0.8::real) \<le> 0.8" "(0.8::real) \<le> 1.2"
    "1 / pow2 990 \<le> (9::real)"
    by (simp_all add: pow2_def)
  have h1: "is_double 9 \<and> (0::real) < 9 \<and> (9::real) \<le> 20 \<and>
    fl 1.0 \<in> {fl 1.0, fl 0.8, fl 0.4, fl 0.15, fl 0.05} \<and>
    (0.8::real) \<le> 0.8 \<and> (0.8::real) \<le> 1.2"
    by (intro conjI d m n)
  have h2: "is_double 9 \<and> 1 / pow2 990 \<le> (9::real) \<and> (9::real) \<le> 20 \<and>
    fl 1.0 \<in> {fl 1.0, fl 0.8, fl 0.4, fl 0.15, fl 0.05} \<and>
    (0.8::real) \<le> 0.8 \<and> (0.8::real) \<le> 1.2"
    by (intro conjI d m n)
  note t = rate_positive_binary64 [of 9 "fl 1.0" "0.8" 12]
  note c1 = mp [OF conjunct1 [OF t] h1]
  note c2 = mp [OF conjunct1 [OF conjunct2 [OF t]] h2]
  note c3 = mp [OF conjunct2 [OF conjunct2 [OF t]] m]
  show ?thesis by (intro conjI h1 c1 h2 c2 c3)
qed

text \<open>
  C10. With the fixed height of 74 inches and weight of 180 pounds the BMI is about
  23.1 (and printed so), below 25. Whenever the winter branch fires the dose is
  therefore 2000 IU/day, and no month yields a dose of 3000 or 4000.
\<close>

theorem fixed_profile_dose:
  "\<bar>bmi - 23.1\<bar> \<le> 0.05 \<and> format_1f (Fin bmi) = ''23.1'' \<and> bmi < 25 \<and>
   supplement_rec bmi = 2000 \<and>
   (month \<in> {11, 12, 1, 2} \<longrightarrow> winter_notice month = Warning ''23.1'' 2000) \<and>
   (\<forall>s. winter_notice month \<noteq> Warning s 3000 \<and> winter_notice month \<noteq> Warning s 4000)"
  by (simp add: winter_notice_def supplement_notice_def supplement_rec_def bmi_value
      round_half_even_def digits.simps)

theorem fixed_profile_dose_witness:
  "(1::int) \<in> {11, 12, 1, 2} \<and> winter_notice 1 = Warning ''23.1'' 2000"
  using fixed_profile_dose [of 1] by simp

end
